theory Spec2Isabelle
  imports Complex_Main
begin

section \<open>Data model\<close>

text \<open>
  The hook \<^verbatim>\<open>useLiveAPI\<close> keeps its state in React state cells (\<^verbatim>\<open>connected\<close>,
  \<^verbatim>\<open>volume\<close>) and in mutable refs; the component \<^verbatim>\<open>App\<close> keeps the log. Each
  callback of the source is embedded as a function from the state before the call to the
  state after it. What the browser and the remote service decide (the wall clock, the
  output clock, whether the microphone is granted, whether a node refuses \<^verbatim>\<open>stop()\<close>)
  is an argument of the callback. A callback runs from its call to its completion in one
  step: callbacks interleaving at an \<^verbatim>\<open>await\<close> are outside this model.

  JavaScript numbers are modelled by the reals they denote, with one extra value for
  \<^verbatim>\<open>NaN\<close>: a sample of a captured frame and the published volume are a number or
  \<^verbatim>\<open>NaN\<close>. Rounding of doubles and the two infinities are not modelled.
\<close>

datatype role = User | Model | System

record LogMessage =
  role :: role
  "text" :: string
  timestamp :: nat

datatype jsnum = Num real | NaN

text \<open>An \<^verbatim>\<open>AudioBufferSourceNode\<close>: the duration of its buffer, the argument of its
  \<^verbatim>\<open>start\<close> call, and how many times \<^verbatim>\<open>stop\<close> was called on it.\<close>

record AudioBufferSourceNode =
  buffer_duration :: real
  start_when :: real
  stop_calls :: nat

datatype error = InvalidStateError | Rejection string | DecodeError

datatype session_promise = Fulfilled nat | Rejected string

datatype audio_context = Running | Closed

datatype audio_link = Linked | Unlinked

text \<open>The result of \<^verbatim>\<open>decodeAudioData\<close> on the inline data of a message. The function
  belongs to \<^verbatim>\<open>utils/audio\<close>, which is not among the sources: its result is taken as
  given, an audio buffer of some duration or a raised error.\<close>

datatype decoded = AudioBuffer real | DecodeFails

record LiveServerMessage =
  outputTranscription :: "string option"
  inputTranscription :: "string option"
  turnComplete :: bool
  inlineData :: "decoded option"
  interrupted :: bool

text \<open>
  The state: the two state cells and the seven refs of \<^verbatim>\<open>useLiveAPI\<close>, the log of
  \<^verbatim>\<open>App\<close>, and the part of the world the callbacks act on: the heap of source nodes
  (the set \<^verbatim>\<open>audioSourcesRef\<close> holds their addresses, in insertion order, as a
  JavaScript \<^verbatim>\<open>Set\<close> iterates), the remote sessions that were opened and have not been
  closed (by \<^verbatim>\<open>session.close()\<close> or by the service, which \<^verbatim>\<open>onclose\<close> reports),
  and the audio frames handed to the session. \<^verbatim>\<open>connected\<close> is written
  \<open>connected_cell\<close>, the name being taken in HOL.
\<close>

record hook_state =
  connected_cell :: bool
  volume :: jsnum
  sessionPromiseRef :: "session_promise option"
  inputAudioContextRef :: "audio_context option"
  outputAudioContextRef :: "audio_context option"
  nextStartTimeRef :: real
  audioSourcesRef :: "nat list"
  inputSourceRef :: "audio_link option"
  processorRef :: "audio_link option"
  logs :: "LogMessage list"
  nodes :: "nat \<rightharpoonup> AudioBufferSourceNode"
  next_node :: nat
  remote_sessions :: "nat list"
  next_session :: nat
  realtime_input :: "(nat \<times> jsnum list) list"

definition initial_state :: hook_state where
  "initial_state =
     \<lparr>connected_cell = False, volume = Num 0, sessionPromiseRef = None,
      inputAudioContextRef = None, outputAudioContextRef = None,
      nextStartTimeRef = 0, audioSourcesRef = [], inputSourceRef = None,
      processorRef = None, logs = [], nodes = Map.empty, next_node = 0,
      remote_sessions = [], next_session = 0, realtime_input = []\<rparr>"

section \<open>The log (App.tsx)\<close>

text \<open>\<^verbatim>\<open>xs.slice(-n)\<close>: the last \<open>n\<close> elements, all of them when there are fewer.\<close>

definition slice_last :: "nat \<Rightarrow> 'a list \<Rightarrow> 'a list" where
  "slice_last n xs = drop (length xs - n) xs"

text \<open>\<^verbatim>\<open>setLogs(prev => [...prev, message].slice(-50))\<close>\<close>

definition addLog :: "LogMessage list \<Rightarrow> LogMessage \<Rightarrow> LogMessage list" where
  "addLog prev message = slice_last 50 (prev @ [message])"

text \<open>\<^verbatim>\<open>App\<close> passes \<^verbatim>\<open>addLog\<close> to the hook as \<^verbatim>\<open>onLog\<close>.\<close>

definition onLog :: "LogMessage \<Rightarrow> hook_state \<Rightarrow> hook_state" where
  "onLog message s = s\<lparr>logs := addLog (logs s) message\<rparr>"

section \<open>Capture: the volume of a frame\<close>

text \<open>The arithmetic of JavaScript on numbers and \<^verbatim>\<open>NaN\<close>: a sum, a product or a quotient
  with a \<^verbatim>\<open>NaN\<close> operand is \<^verbatim>\<open>NaN\<close>, \<^verbatim>\<open>Math.sqrt\<close> of \<^verbatim>\<open>NaN\<close> or of a negative
  number is \<^verbatim>\<open>NaN\<close>, and \<^verbatim>\<open>Math.min\<close> with a \<^verbatim>\<open>NaN\<close> argument is \<^verbatim>\<open>NaN\<close>. The
  quotient is used with a divisor other than 0 only.\<close>

fun js_add :: "jsnum \<Rightarrow> jsnum \<Rightarrow> jsnum" where
  "js_add (Num a) (Num b) = Num (a + b)"
| "js_add _ _ = NaN"

fun js_mul :: "jsnum \<Rightarrow> jsnum \<Rightarrow> jsnum" where
  "js_mul (Num a) (Num b) = Num (a * b)"
| "js_mul _ _ = NaN"

fun js_div :: "jsnum \<Rightarrow> jsnum \<Rightarrow> jsnum" where
  "js_div (Num a) (Num b) = Num (a / b)"
| "js_div _ _ = NaN"

fun js_sqrt :: "jsnum \<Rightarrow> jsnum" where
  "js_sqrt (Num a) = (if a < 0 then NaN else Num (sqrt a))"
| "js_sqrt NaN = NaN"

fun js_min :: "jsnum \<Rightarrow> jsnum \<Rightarrow> jsnum" where
  "js_min (Num a) (Num b) = Num (min a b)"
| "js_min _ _ = NaN"

text \<open>The loop \<^verbatim>\<open>for (let i = 0; i < inputData.length; i++) sum += inputData[i] * inputData[i]\<close>.\<close>

function sum_loop :: "jsnum list \<Rightarrow> nat \<Rightarrow> jsnum \<Rightarrow> jsnum" where
  "sum_loop inputData i sm =
     (if i < length inputData
      then sum_loop inputData (i + 1) (js_add sm (js_mul (inputData ! i) (inputData ! i)))
      else sm)"
  by pat_completeness auto
termination
  by (relation "measure (\<lambda>(inputData, i, sm). length inputData - i)") auto

declare sum_loop.simps [simp del]

text \<open>
  \<^verbatim>\<open>Math.min(1, Math.sqrt(sum / inputData.length) * 5)\<close>, with \<^verbatim>\<open>sum\<close> starting at 0.
  On a frame of length zero the loop leaves \<^verbatim>\<open>sum\<close> at 0 and the quotient
  \<^verbatim>\<open>0 / 0\<close> is \<^verbatim>\<open>NaN\<close>, which \<^verbatim>\<open>Math.sqrt\<close>, the product and \<^verbatim>\<open>Math.min\<close> hand
  on.
\<close>

definition frame_volume :: "jsnum list \<Rightarrow> jsnum" where
  "frame_volume inputData =
     (let sm = sum_loop inputData 0 (Num 0) in
      if length inputData = 0 then NaN
      else let rms = js_sqrt (js_div sm (Num (real (length inputData))))
           in js_min (Num 1) (js_mul rms (Num 5)))"

text \<open>
  \<^verbatim>\<open>processor.onaudioprocess\<close>: publish the volume, then hand the frame to the session
  once the session promise is fulfilled (a rejected or absent promise sends nothing).
  The encoder \<^verbatim>\<open>createPcmBlob\<close> is not among the sources; the frame it is given is
  recorded.
\<close>

definition onaudioprocess :: "jsnum list \<Rightarrow> hook_state \<Rightarrow> hook_state" where
  "onaudioprocess inputData s =
     (let s1 = s\<lparr>volume := frame_volume inputData\<rparr> in
      case sessionPromiseRef s1 of
        Some (Fulfilled session) \<Rightarrow>
          s1\<lparr>realtime_input := realtime_input s1 @ [(session, inputData)]\<rparr>
      | _ \<Rightarrow> s1)"

section \<open>Playback: scheduling and flushing\<close>

text \<open>
  \<^verbatim>\<open>src.stop()\<close> on the node at address \<open>a\<close>. Whether the platform raises on this
  node (an implementation may refuse to stop a node that has already finished) is the
  argument \<open>raises\<close>; the call is counted either way.
\<close>

definition stop :: "(nat \<Rightarrow> bool) \<Rightarrow> nat \<Rightarrow> (nat \<rightharpoonup> AudioBufferSourceNode)
    \<Rightarrow> error option \<times> (nat \<rightharpoonup> AudioBufferSourceNode)" where
  "stop raises a h =
     (if raises a then Some InvalidStateError else None,
      h(a := map_option (\<lambda>n. n\<lparr>stop_calls := stop_calls n + 1\<rparr>) (h a)))"

text \<open>\<^verbatim>\<open>audioSourcesRef.current.forEach(src => { try { src.stop(); } catch(e) {} })\<close>\<close>

fun forEach_stop_caught :: "(nat \<Rightarrow> bool) \<Rightarrow> nat list \<Rightarrow> (nat \<rightharpoonup> AudioBufferSourceNode)
    \<Rightarrow> (nat \<rightharpoonup> AudioBufferSourceNode)" where
  "forEach_stop_caught raises [] h = h"
| "forEach_stop_caught raises (src # rest) h =
     forEach_stop_caught raises rest (snd (stop raises src h))"

text \<open>\<^verbatim>\<open>audioSourcesRef.current.forEach(s => s.stop())\<close>: the first error ends the
  iteration and is raised to the caller.\<close>

fun forEach_stop :: "(nat \<Rightarrow> bool) \<Rightarrow> nat list \<Rightarrow> (nat \<rightharpoonup> AudioBufferSourceNode)
    \<Rightarrow> error option \<times> (nat \<rightharpoonup> AudioBufferSourceNode)" where
  "forEach_stop raises [] h = (None, h)"
| "forEach_stop raises (src # rest) h =
     (case stop raises src h of
        (Some e, h') \<Rightarrow> (Some e, h')
      | (None, h') \<Rightarrow> forEach_stop raises rest h')"

text \<open>Lines 77 to 86 of \<^verbatim>\<open>onmessage\<close>: the transcription of the model's speech is logged.\<close>

definition handle_transcription :: "nat \<Rightarrow> LiveServerMessage \<Rightarrow> hook_state \<Rightarrow> hook_state" where
  "handle_transcription date message s =
     (case outputTranscription message of
        Some t \<Rightarrow> onLog \<lparr>role = Model, text = t, timestamp = date\<rparr> s
      | None \<Rightarrow> s)"

text \<open>
  Lines 93 to 116 of \<^verbatim>\<open>onmessage\<close>: the audio of the message, when there is some and an
  output context exists, is decoded and scheduled at \<^verbatim>\<open>Math.max(now, nextStartTimeRef.current)\<close>
  on a new source node; \<open>now\<close> is \<^verbatim>\<open>ctx.currentTime\<close>. An error of the decoder leaves
  the handler at once.
\<close>

definition handle_audio :: "real \<Rightarrow> LiveServerMessage \<Rightarrow> hook_state \<Rightarrow> error option \<times> hook_state" where
  "handle_audio now message s =
     (case (inlineData message, outputAudioContextRef s) of
        (Some DecodeFails, Some ctx) \<Rightarrow> (Some DecodeError, s)
      | (Some (AudioBuffer d), Some ctx) \<Rightarrow>
          (let source = next_node s;
               startTime = max now (nextStartTimeRef s)
           in (None,
               s\<lparr>nodes := (nodes s)(source \<mapsto>
                     \<lparr>buffer_duration = d, start_when = startTime, stop_calls = 0\<rparr>),
                 next_node := source + 1,
                 nextStartTimeRef := startTime + d,
                 audioSourcesRef := audioSourcesRef s @ [source]\<rparr>))
      | _ \<Rightarrow> (None, s))"

text \<open>Lines 119 to 126 of \<^verbatim>\<open>onmessage\<close>: the flush on an interruption.\<close>

definition handle_interruption :: "(nat \<Rightarrow> bool) \<Rightarrow> nat \<Rightarrow> LiveServerMessage \<Rightarrow> hook_state \<Rightarrow> hook_state" where
  "handle_interruption raises date message s =
     (if interrupted message
      then (let s1 = onLog \<lparr>role = System, text = ''Interrupted by user.'', timestamp = date\<rparr> s
            in s1\<lparr>nodes := forEach_stop_caught raises (audioSourcesRef s1) (nodes s1),
                  audioSourcesRef := [],
                  nextStartTimeRef := 0\<rparr>)
      else s)"

definition onmessage :: "(nat \<Rightarrow> bool) \<Rightarrow> real \<Rightarrow> nat \<Rightarrow> LiveServerMessage \<Rightarrow> hook_state
    \<Rightarrow> error option \<times> hook_state" where
  "onmessage raises now date message s =
     (case handle_audio now message (handle_transcription date message s) of
        (Some e, s') \<Rightarrow> (Some e, s')
      | (None, s') \<Rightarrow> (None, handle_interruption raises date message s'))"

text \<open>\<^verbatim>\<open>source.onended = () => audioSourcesRef.current.delete(source)\<close>\<close>

definition onended :: "nat \<Rightarrow> hook_state \<Rightarrow> hook_state" where
  "onended source s = s\<lparr>audioSourcesRef := removeAll source (audioSourcesRef s)\<rparr>"

text \<open>Messages handled one after the other, each at its own clock readings; a handler
  that raised does not keep the next one from running.\<close>

fun onmessages :: "(nat \<Rightarrow> bool) \<Rightarrow> (real \<times> nat \<times> LiveServerMessage) list \<Rightarrow> hook_state \<Rightarrow> hook_state" where
  "onmessages raises [] s = s"
| "onmessages raises ((now, date, message) # rest) s =
     onmessages raises rest (snd (onmessage raises now date message s))"

section \<open>The session: connect, its callbacks, disconnect\<close>

text \<open>What \<^verbatim>\<open>connect\<close> finds: the credential \<^verbatim>\<open>process.env.API_KEY\<close>; whether one of
  the three constructors at the head of the \<^verbatim>\<open>try\<close> block raises (\<^verbatim>\<open>new GoogleGenAI\<close>,
  the input \<^verbatim>\<open>AudioContext\<close>, the output \<^verbatim>\<open>AudioContext\<close>), with which message; whether
  \<^verbatim>\<open>getUserMedia\<close> rejects (with which message); and whether the promise of
  \<^verbatim>\<open>ai.live.connect\<close> is rejected (with which reason).\<close>

record connect_env =
  API_KEY :: "string option"
  GoogleGenAI_raises :: "string option"
  inputAudioContext_raises :: "string option"
  outputAudioContext_raises :: "string option"
  getUserMedia_rejects :: "string option"
  live_connect_rejects :: "string option"

text \<open>\<^verbatim>\<open>!process.env.API_KEY\<close>: undefined or the empty string.\<close>

definition falsy :: "string option \<Rightarrow> bool" where
  "falsy v = (case v of None \<Rightarrow> True | Some str \<Rightarrow> str = [])"

text \<open>The \<^verbatim>\<open>catch\<close> block of \<^verbatim>\<open>connect\<close> (lines 145 to 148).\<close>

definition connection_failed :: "string \<Rightarrow> nat \<Rightarrow> hook_state \<Rightarrow> hook_state" where
  "connection_failed msg date s =
     (onLog \<lparr>role = System, text = ''Connection Failed: '' @ msg, timestamp = date\<rparr> s)
       \<lparr>connected_cell := False\<rparr>"

text \<open>\<^verbatim>\<open>connect\<close>: an error raised inside the \<^verbatim>\<open>try\<close> block ends in the \<^verbatim>\<open>catch\<close> block
  with what was assigned until then; the promise of \<^verbatim>\<open>ai.live.connect\<close> is stored, not
  awaited, so its rejection is not caught here.\<close>

definition connect :: "connect_env \<Rightarrow> nat \<Rightarrow> hook_state \<Rightarrow> hook_state" where
  "connect env date s =
     (if falsy (API_KEY env)
      then onLog \<lparr>role = System, text = ''API Key not found in environment.'', timestamp = date\<rparr> s
      else
        (case GoogleGenAI_raises env of
           Some msg \<Rightarrow> connection_failed msg date s
         | None \<Rightarrow>
        (case inputAudioContext_raises env of
           Some msg \<Rightarrow> connection_failed msg date s
         | None \<Rightarrow>
        (let s0 = s\<lparr>inputAudioContextRef := Some Running\<rparr> in
         case outputAudioContext_raises env of
           Some msg \<Rightarrow> connection_failed msg date s0
         | None \<Rightarrow>
        (let s1 = s0\<lparr>outputAudioContextRef := Some Running,
                      nextStartTimeRef := 0\<rparr>;
             s2 = onLog \<lparr>role = System, text = ''Connecting to Gemini Live...'', timestamp = date\<rparr> s1
         in case getUserMedia_rejects env of
              Some msg \<Rightarrow> connection_failed msg date s2
            | None \<Rightarrow>
                (case live_connect_rejects env of
                   Some reason \<Rightarrow> s2\<lparr>sessionPromiseRef := Some (Rejected reason)\<rparr>
                 | None \<Rightarrow>
                     s2\<lparr>sessionPromiseRef := Some (Fulfilled (next_session s2)),
                        remote_sessions := remote_sessions s2 @ [next_session s2],
                        next_session := next_session s2 + 1\<rparr>))))))"

definition onopen :: "nat \<Rightarrow> hook_state \<Rightarrow> hook_state" where
  "onopen date s =
     (let s1 = onLog \<lparr>role = System, text = ''Session Connected.'', timestamp = date\<rparr>
                 (s\<lparr>connected_cell := True\<rparr>)
      in case inputAudioContextRef s1 of
           None \<Rightarrow> s1
         | Some ctx \<Rightarrow> s1\<lparr>inputSourceRef := Some Linked, processorRef := Some Linked\<rparr>)"

text \<open>\<^verbatim>\<open>onclose\<close>, the callback that \<^verbatim>\<open>connect\<close> gave to the session \<open>session\<close>: it is
  called when that session has closed, so the session is no longer among the open ones.\<close>

definition onclose :: "nat \<Rightarrow> nat \<Rightarrow> hook_state \<Rightarrow> hook_state" where
  "onclose session date s =
     onLog \<lparr>role = System, text = ''Session Closed.'', timestamp = date\<rparr>
       (s\<lparr>connected_cell := False,
          remote_sessions := removeAll session (remote_sessions s)\<rparr>)"

text \<open>\<^verbatim>\<open>onerror\<close>: \<^verbatim>\<open>err.type || 'Unknown error'\<close> is logged. An error does not by
  itself close the session; the close that follows it is reported to \<^verbatim>\<open>onclose\<close>.\<close>

definition onerror :: "string option \<Rightarrow> nat \<Rightarrow> hook_state \<Rightarrow> hook_state" where
  "onerror err_type date s =
     (onLog \<lparr>role = System,
             text = ''Error: '' @ (if falsy err_type then ''Unknown error'' else the err_type),
             timestamp = date\<rparr> s)
       \<lparr>connected_cell := False\<rparr>"

text \<open>
  \<^verbatim>\<open>disconnect\<close>. Awaiting a rejected session promise raises before anything is cleaned
  up; an error of \<^verbatim>\<open>s.stop()\<close> leaves the function inside \<^verbatim>\<open>forEach\<close>, before
  \<^verbatim>\<open>clear()\<close>, \<^verbatim>\<open>setConnected(false)\<close> and \<^verbatim>\<open>setVolume(0)\<close>.
\<close>

definition disconnect :: "(nat \<Rightarrow> bool) \<Rightarrow> hook_state \<Rightarrow> error option \<times> hook_state" where
  "disconnect raises s =
     (case sessionPromiseRef s of
        Some (Rejected reason) \<Rightarrow> (Some (Rejection reason), s)
      | p \<Rightarrow>
          (let s1 = (case p of
                       Some (Fulfilled session) \<Rightarrow>
                         s\<lparr>remote_sessions := removeAll session (remote_sessions s)\<rparr>
                     | _ \<Rightarrow> s);
               s2 = s1\<lparr>inputSourceRef := map_option (\<lambda>l. Unlinked) (inputSourceRef s1),
                        processorRef := map_option (\<lambda>l. Unlinked) (processorRef s1),
                        inputAudioContextRef := map_option (\<lambda>c. Closed) (inputAudioContextRef s1),
                        outputAudioContextRef := map_option (\<lambda>c. Closed) (outputAudioContextRef s1)\<rparr>
           in case forEach_stop raises (audioSourcesRef s2) (nodes s2) of
                (Some e, h) \<Rightarrow> (Some e, s2\<lparr>nodes := h\<rparr>)
              | (None, h) \<Rightarrow>
                  (None, s2\<lparr>nodes := h, audioSourcesRef := [],
                            connected_cell := False, volume := Num 0\<rparr>)))"

text \<open>The connection button of \<^verbatim>\<open>App\<close>: \<^verbatim>\<open>onClick={connected ? disconnect : connect}\<close>.\<close>

definition onClick :: "connect_env \<Rightarrow> (nat \<Rightarrow> bool) \<Rightarrow> nat \<Rightarrow> hook_state \<Rightarrow> error option \<times> hook_state" where
  "onClick env raises date s =
     (if connected_cell s then disconnect raises s else (None, connect env date s))"

section \<open>States the callbacks keep, and readings of a run\<close>

text \<open>The pending set is a set: no address stands in it twice, and every address in it
  is the address of a node that was created and is on the heap. The callbacks keep this (lemmas
  \<open>pending_ok_initial\<close>, \<open>pending_ok_onmessage\<close>, \<open>pending_ok_disconnect\<close>,
  \<open>pending_ok_others\<close>).\<close>

definition pending_ok :: "hook_state \<Rightarrow> bool" where
  "pending_ok s =
     (distinct (audioSourcesRef s)
      \<and> list_all (\<lambda>a. a < next_node s \<and> nodes s a \<noteq> None) (audioSourcesRef s))"

text \<open>The sources created since the node counter stood at \<open>base\<close> follow one another:
  each starts no earlier than the one created before it ends, and the cursor stands at
  the end of the last one.\<close>

definition back_to_back :: "nat \<Rightarrow> hook_state \<Rightarrow> bool" where
  "back_to_back base t =
     (base \<le> next_node t
      \<and> (\<forall>a. base \<le> a \<and> Suc a < next_node t \<longrightarrow>
            (\<exists>n n'. nodes t a = Some n \<and> nodes t (Suc a) = Some n'
               \<and> start_when n + buffer_duration n \<le> start_when n'))
      \<and> (base < next_node t \<longrightarrow>
            (\<exists>n. nodes t (next_node t - 1) = Some n
               \<and> nextStartTimeRef t = start_when n + buffer_duration n)))"

text \<open>A message that brings a decodable chunk and no interruption, and the duration of the
  chunk a message brings.\<close>

definition carries_audio :: "LiveServerMessage \<Rightarrow> bool" where
  "carries_audio m = (case inlineData m of Some (AudioBuffer d) \<Rightarrow> \<not> interrupted m | _ \<Rightarrow> False)"

definition chunk_duration :: "LiveServerMessage \<Rightarrow> real option" where
  "chunk_duration m = (case inlineData m of Some (AudioBuffer d) \<Rightarrow> Some d | _ \<Rightarrow> None)"

section \<open>Concrete inputs\<close>

text \<open>A platform on which \<^verbatim>\<open>stop()\<close> never raises, and one on which it raises on the
  node at address 0 (a node that has finished, where the implementation refuses that).\<close>

definition stop_never_raises :: "nat \<Rightarrow> bool" where
  "stop_never_raises a = False"

definition stop_raises_on_first :: "nat \<Rightarrow> bool" where
  "stop_raises_on_first a = (a = 0)"

text \<open>A credential is configured, the microphone is granted, the handshake succeeds.\<close>

definition env_ready :: connect_env where
  "env_ready = \<lparr>API_KEY = Some ''key'', GoogleGenAI_raises = None,
     inputAudioContext_raises = None, outputAudioContext_raises = None,
     getUserMedia_rejects = None, live_connect_rejects = None\<rparr>"

text \<open>No credential is configured; everything else would succeed.\<close>

definition env_no_key :: connect_env where
  "env_no_key = \<lparr>API_KEY = None, GoogleGenAI_raises = None,
     inputAudioContext_raises = None, outputAudioContext_raises = None,
     getUserMedia_rejects = None, live_connect_rejects = None\<rparr>"

text \<open>A credential is configured, but the output \<^verbatim>\<open>AudioContext\<close> cannot be constructed.\<close>

definition env_no_output_context :: connect_env where
  "env_no_output_context = \<lparr>API_KEY = Some ''key'', GoogleGenAI_raises = None,
     inputAudioContext_raises = None, outputAudioContext_raises = Some ''NotSupportedError'',
     getUserMedia_rejects = None, live_connect_rejects = None\<rparr>"

text \<open>A message that carries nothing but audio of the given duration, and a message that
  carries nothing but the interruption flag.\<close>

definition audio_message :: "real \<Rightarrow> LiveServerMessage" where
  "audio_message d = \<lparr>outputTranscription = None, inputTranscription = None, turnComplete = False,
     inlineData = Some (AudioBuffer d), interrupted = False\<rparr>"

definition interruption_message :: LiveServerMessage where
  "interruption_message = \<lparr>outputTranscription = None, inputTranscription = None, turnComplete = False,
     inlineData = None, interrupted = True\<rparr>"

text \<open>A message with the interruption flag and with audio data that the decoder refuses.\<close>

definition undecodable_interruption_message :: LiveServerMessage where
  "undecodable_interruption_message = \<lparr>outputTranscription = None, inputTranscription = None,
     turnComplete = False, inlineData = Some DecodeFails, interrupted = True\<rparr>"

text \<open>A session after \<^verbatim>\<open>connect\<close>, \<^verbatim>\<open>onopen\<close>, one captured frame and three audio
  messages of half a second each, all arriving at output clock 10: three sources are
  pending.\<close>

definition three_pending :: hook_state where
  "three_pending =
     onmessages stop_never_raises
       [(10, 3, audio_message 0.5), (10, 4, audio_message 0.5), (10, 5, audio_message 0.5)]
       (onaudioprocess [Num 1, Num 1] (onopen 2 (connect env_ready 1 initial_state)))"

section \<open>Notions of the specification\<close>

text \<open>The root mean square of a frame, as the specification words it: the square root of
  the mean of the squares of the samples.\<close>

definition rms_spec :: "real list \<Rightarrow> real" where
  "rms_spec samples = sqrt ((\<Sum>x\<leftarrow>samples. x\<^sup>2) / real (length samples))"

text \<open>A published volume lies between 0 and 1; \<^verbatim>\<open>NaN\<close> lies in no interval.\<close>

fun in_unit_interval :: "jsnum \<Rightarrow> bool" where
  "in_unit_interval (Num v) = (0 \<le> v \<and> v \<le> 1)"
| "in_unit_interval NaN = False"

section \<open>The PCM codec, modelled from the specification\<close>

text \<open>Modelled from the spec: the wire blob that \<^verbatim>\<open>encode\<close> returns (\<^verbatim>\<open>createPcmBlob\<close> of
  \<^verbatim>\<open>utils/audio\<close>, which is not among the sources): a payload in base64 and its type
  descriptor.\<close>

record WireBlob =
  mimeType :: string
  data :: string

text \<open>Modelled from the spec: the map of one sample of \<^verbatim>\<open>encode\<close>, "linearly from [-1,1] to a
  signed 16-bit integer range, clamping out-of-range inputs". The scale is 32768, the one
  the quantization error 1/32768 of the spec belongs to; the spec does not name the rounding
  to an integer, which is the argument \<open>rnd\<close>.\<close>

definition quantize :: "(real \<Rightarrow> int) \<Rightarrow> real \<Rightarrow> int" where
  "quantize rnd x = max (- 32768) (min 32767 (rnd (x * 32768)))"

text \<open>Modelled from the spec: a 16-bit integer serialized "little-endian into a byte buffer",
  in two's complement, low byte first.\<close>

definition le_bytes :: "int \<Rightarrow> nat list" where
  "le_bytes i = [nat (i mod 256), nat ((i div 256) mod 256)]"

text \<open>Modelled from the spec: two bytes read "as little-endian signed 16-bit integers".\<close>

definition int16_of :: "nat \<Rightarrow> nat \<Rightarrow> int" where
  "int16_of lo hi = (let u = int lo + 256 * int hi in if 32768 \<le> u then u - 65536 else u)"

text \<open>Modelled from the spec: a byte buffer read two bytes at a time as little-endian signed
  16-bit integers.\<close>

fun le_int16s :: "nat list \<Rightarrow> int list" where
  "le_int16s (lo # hi # rest) = int16_of lo hi # le_int16s rest"
| "le_int16s _ = []"

text \<open>Modelled from the spec: the base64 alphabet (the spec has the blob "base64-encoded").\<close>

definition alphabet :: string where
  "alphabet = ''ABCDEFGHIJKLMNOPQRSTUVWXYZabcdefghijklmnopqrstuvwxyz0123456789+/''"

text \<open>Modelled from the spec: the base64 character of six bits.\<close>

definition sextet_char :: "nat \<Rightarrow> char" where
  "sextet_char n = alphabet ! n"

text \<open>Modelled from the spec: the position of a character in the base64 alphabet, none for a
  character that is not in it.\<close>

fun index_of :: "'a \<Rightarrow> 'a list \<Rightarrow> nat option" where
  "index_of c [] = None"
| "index_of c (x # xs) = (if c = x then Some 0 else map_option Suc (index_of c xs))"

text \<open>Modelled from the spec: the six bits of a base64 character.\<close>

definition char_sextet :: "char \<Rightarrow> nat option" where
  "char_sextet c = index_of c alphabet"

text \<open>Modelled from the spec: base64 of a byte buffer, three bytes to four characters, padded
  with \<^verbatim>\<open>=\<close>.\<close>

fun base64 :: "nat list \<Rightarrow> string" where
  "base64 (a # b # c # rest) =
     [sextet_char (a div 4), sextet_char ((a mod 4) * 16 + b div 16),
      sextet_char ((b mod 16) * 4 + c div 64), sextet_char (c mod 64)] @ base64 rest"
| "base64 [a, b] =
     [sextet_char (a div 4), sextet_char ((a mod 4) * 16 + b div 16),
      sextet_char ((b mod 16) * 4), CHR ''='']"
| "base64 [a] = [sextet_char (a div 4), sextet_char ((a mod 4) * 16), CHR ''='', CHR ''='']"
| "base64 [] = []"

text \<open>Modelled from the spec: the bytes of a base64 text; none when the text is not base64.\<close>

fun unbase64 :: "string \<Rightarrow> nat list option" where
  "unbase64 [] = Some []"
| "unbase64 (p # q # r # s # rest) =
     (if rest = [] \<and> s = CHR ''=''
      then (if r = CHR ''=''
            then (case (char_sextet p, char_sextet q) of
                    (Some i, Some j) \<Rightarrow> Some [i * 4 + j div 16]
                  | _ \<Rightarrow> None)
            else (case (char_sextet p, char_sextet q, char_sextet r) of
                    (Some i, Some j, Some k) \<Rightarrow>
                      Some [i * 4 + j div 16, (j mod 16) * 16 + k div 4]
                  | _ \<Rightarrow> None))
      else (case (char_sextet p, char_sextet q, char_sextet r, char_sextet s) of
              (Some i, Some j, Some k, Some l) \<Rightarrow>
                map_option
                  (\<lambda>bytes. [i * 4 + j div 16, (j mod 16) * 16 + k div 4, (k mod 4) * 64 + l] @ bytes)
                  (unbase64 rest)
            | _ \<Rightarrow> None))"
| "unbase64 _ = None"

text \<open>Modelled from the spec: \<^verbatim>\<open>encode\<close> (\<^verbatim>\<open>createPcmBlob\<close> of \<^verbatim>\<open>utils/audio\<close>, not among
  the sources): every sample to a clamped 16-bit integer, the integers little-endian into
  a byte buffer, the buffer in base64 with the type \<^verbatim>\<open>audio/pcm;rate=<INPUT_RATE>\<close>; the
  rate is given by its digits.\<close>

definition encode :: "(real \<Rightarrow> int) \<Rightarrow> string \<Rightarrow> real list \<Rightarrow> WireBlob" where
  "encode rnd rate samples =
     \<lparr>mimeType = ''audio/pcm;rate='' @ rate,
      data = base64 (concat (map (\<lambda>x. le_bytes (quantize rnd x)) samples))\<rparr>"

text \<open>Modelled from the spec: \<^verbatim>\<open>decode\<close> (\<^verbatim>\<open>base64ToArrayBuffer\<close> and \<^verbatim>\<open>decodeAudioData\<close>
  of \<^verbatim>\<open>utils/audio\<close>, not among the sources): the bytes of the base64 text read as
  little-endian signed 16-bit integers and brought back to [-1,1]; a text that is not
  base64 or has an odd number of bytes is a \<^verbatim>\<open>DecodeError\<close>. The target context and
  rate do not bear on the samples.\<close>

definition decode :: "string \<Rightarrow> error + real list" where
  "decode blob =
     (case unbase64 blob of
        None \<Rightarrow> Inl DecodeError
      | Some bytes \<Rightarrow>
          if odd (length bytes) then Inl DecodeError
          else Inr (map (\<lambda>i. real_of_int i / 32768) (le_int16s bytes)))"

section \<open>The log keeps the last fifty entries\<close>

lemma slice_last_append1:
  "slice_last n (slice_last n zs @ [m]) = slice_last n (zs @ [m])"
proof -
  have "Suc (length zs) - (length zs - n + n) + (length zs - n) = Suc (length zs) - n"
    by arith
  then show ?thesis
    by (simp add: slice_last_def)
qed

lemma addLog_slice: "addLog (slice_last 50 zs) m = slice_last 50 (zs @ [m])"
  by (simp add: addLog_def slice_last_append1)

lemma foldl_addLog_slice:
  "foldl addLog (slice_last 50 zs) ms = slice_last 50 (zs @ ms)"
proof (induction ms arbitrary: zs)
  case Nil
  show ?case by simp
next
  case (Cons m ms)
  have "foldl addLog (slice_last 50 zs) (m # ms) = foldl addLog (slice_last 50 (zs @ [m])) ms"
    by (simp add: addLog_slice)
  also have "\<dots> = slice_last 50 ((zs @ [m]) @ ms)"
    by (rule Cons.IH)
  finally show ?case by simp
qed

text \<open>
  C8. The log keeps the most recent 50 entries, oldest first out: appending the entries
  \<open>ms\<close> one by one to the empty log leaves the last 50 of them (all of them when
  there are fewer) in the order they came; after 60 appends exactly the 50 latest remain,
  the first ten being gone.
\<close>

theorem log_keeps_last_50:
  "foldl addLog [] ms = drop (length ms - 50) ms
   \<and> length (foldl addLog [] ms) = min 50 (length ms)
   \<and> (length ms = 60 \<longrightarrow>
        foldl addLog [] ms = drop 10 ms \<and> length (foldl addLog [] ms) = 50)"
proof -
  have "foldl addLog (slice_last 50 []) ms = slice_last 50 ([] @ ms)"
    by (rule foldl_addLog_slice)
  then have eq: "foldl addLog [] ms = drop (length ms - 50) ms"
    by (simp add: slice_last_def)
  show ?thesis
    unfolding eq by auto
qed

theorem log_keeps_last_50_witness:
  "length (map (\<lambda>i. \<lparr>role = System, text = [], timestamp = i\<rparr>) [0..<60]) = 60
   \<and> foldl addLog [] (map (\<lambda>i. \<lparr>role = System, text = [], timestamp = i\<rparr>) [0..<60])
       = drop 10 (map (\<lambda>i. \<lparr>role = System, text = [], timestamp = i\<rparr>) [0..<60])"
  using log_keeps_last_50 [of "map (\<lambda>i. \<lparr>role = System, text = [], timestamp = i\<rparr>) [0..<60]"]
  by simp

section \<open>The volume of a captured frame\<close>

lemma sum_loop_numbers:
  "sum_loop (map Num xs) i (Num sm) = Num (sm + (\<Sum>k = i..<length xs. xs ! k * xs ! k))"
proof (induction "length xs - i" arbitrary: i sm)
  case 0
  then have "\<not> i < length xs" by simp
  then show ?case by (subst sum_loop.simps) simp
next
  case (Suc n)
  then have i: "i < length xs" and n: "n = length xs - (i + 1)" by simp_all
  have "sum_loop (map Num xs) i (Num sm)
      = sum_loop (map Num xs) (i + 1) (Num (sm + xs ! i * xs ! i))"
    using i by (subst sum_loop.simps) simp
  also have "\<dots> = Num (sm + xs ! i * xs ! i + (\<Sum>k = i + 1..<length xs. xs ! k * xs ! k))"
    using n by (rule Suc.hyps(1))
  also have "\<dots> = Num (sm + (\<Sum>k = i..<length xs. xs ! k * xs ! k))"
    using i by (simp add: sum.atLeast_Suc_lessThan add.assoc)
  finally show ?case .
qed

lemma sum_loop_sum_list: "sum_loop (map Num xs) 0 (Num 0) = Num (\<Sum>x\<leftarrow>xs. x\<^sup>2)"
proof -
  have "(\<Sum>x\<leftarrow>xs. x\<^sup>2) = (\<Sum>k = 0..<length xs. xs ! k * xs ! k)"
    by (simp add: sum_list_sum_nth power2_eq_square)
  then show ?thesis by (simp add: sum_loop_numbers)
qed

lemma js_add_NaN [simp]: "js_add sm NaN = NaN"
  by (cases sm) simp_all

lemma js_min_NaN [simp]: "js_min v NaN = NaN"
  by (cases v) simp_all

lemma sum_loop_NaN_sum: "sum_loop frame i NaN = NaN"
proof (induction "length frame - i" arbitrary: i)
  case 0
  then have "\<not> i < length frame" by simp
  then show ?case by (subst sum_loop.simps) simp
next
  case (Suc n)
  then have i: "i < length frame" and n: "n = length frame - (i + 1)" by simp_all
  have "sum_loop frame i NaN = sum_loop frame (i + 1) NaN"
    using i by (subst sum_loop.simps) simp
  also have "\<dots> = NaN" using n by (rule Suc.hyps(1))
  finally show ?case .
qed

lemma sum_loop_NaN_sample:
  "i \<le> k \<Longrightarrow> k < length frame \<Longrightarrow> frame ! k = NaN \<Longrightarrow> sum_loop frame i sm = NaN"
proof (induction "k - i" arbitrary: i sm)
  case 0
  then have i: "i = k" by simp
  have "sum_loop frame k sm = sum_loop frame (k + 1) NaN"
    using "0.prems" by (subst sum_loop.simps) simp
  then show ?case by (simp add: i sum_loop_NaN_sum)
next
  case (Suc n)
  then have i: "i < k" "i < length frame" and n: "n = k - (i + 1)" by simp_all
  have "sum_loop frame i sm
      = sum_loop frame (i + 1) (js_add sm (js_mul (frame ! i) (frame ! i)))"
    using i by (subst sum_loop.simps) simp
  also have "\<dots> = NaN"
    using n i Suc.prems by (intro Suc.hyps(1)) simp_all
  finally show ?case .
qed

lemma frame_volume_NaN_sample: "NaN \<in> set frame \<Longrightarrow> frame_volume frame = NaN"
proof -
  assume "NaN \<in> set frame"
  then obtain k where k: "k < length frame" "frame ! k = NaN"
    by (auto simp add: in_set_conv_nth)
  then have "sum_loop frame 0 (Num 0) = NaN"
    by (intro sum_loop_NaN_sample [of 0 k]) simp_all
  then show ?thesis
    using k by (auto simp add: frame_volume_def)
qed

lemma frame_volume_rms:
  "xs \<noteq> [] \<Longrightarrow> frame_volume (map Num xs) = Num (min 1 (rms_spec xs * 5))"
proof -
  assume ne: "xs \<noteq> []"
  have "0 \<le> (\<Sum>x\<leftarrow>xs. x\<^sup>2) / real (length xs)"
    by (intro divide_nonneg_nonneg sum_list_nonneg) auto
  then have "\<not> (\<Sum>x\<leftarrow>xs. x\<^sup>2) / real (length xs) < 0" by simp
  then show ?thesis
    using ne by (simp add: frame_volume_def rms_spec_def sum_loop_sum_list)
qed

lemma frame_volume_ones: "frame_volume [Num 1, Num 1] = Num 1"
  using frame_volume_rms [of "[1, 1]"] by (simp add: rms_spec_def)

lemma volume_onaudioprocess [simp]:
  "volume (onaudioprocess inputData s) = frame_volume inputData"
  by (simp add: onaudioprocess_def Let_def split: option.splits session_promise.splits)

lemma rms_spec_zeros: "rms_spec (replicate n 0) = 0"
  by (simp add: rms_spec_def sum_list_replicate)

lemma rms_spec_nonneg: "0 \<le> rms_spec xs"
  unfolding rms_spec_def
  by (intro real_sqrt_ge_zero divide_nonneg_nonneg sum_list_nonneg) auto

text \<open>
  C7. For every captured frame (a frame has samples: the processor is created with a
  buffer of 4096) the published volume is \<open>min 1 (rms * 5)\<close>, with \<open>rms\<close> the root
  mean square of the samples, 5 being the amplification of the source: for a frame whose
  samples are numbers, in the reals; for a frame with a sample that is \<^verbatim>\<open>NaN\<close> the sum,
  the root mean square and \<^verbatim>\<open>Math.min(1, rms * 5)\<close> are \<^verbatim>\<open>NaN\<close>, and so is the
  published volume. On 4096 samples that are all zero the loop sums to 0, the root mean
  square is 0 and the published volume is 0.
\<close>

theorem published_volume:
  "(inputData \<noteq> [] \<longrightarrow>
      volume (onaudioprocess (map Num inputData) s) = Num (min 1 (rms_spec inputData * 5)))
   \<and> (NaN \<in> set frame \<longrightarrow>
      sum_loop frame 0 (Num 0) = NaN
      \<and> volume (onaudioprocess frame s) = js_min (Num 1) (js_mul NaN (Num 5)))
   \<and> sum_loop (replicate 4096 (Num 0)) 0 (Num 0) = Num 0
   \<and> rms_spec (replicate 4096 0) = 0
   \<and> volume (onaudioprocess (replicate 4096 (Num 0)) s) = Num 0"
proof -
  have ne: "replicate 4096 (0::real) \<noteq> []" by simp
  have zeros: "replicate 4096 (Num 0) = map Num (replicate 4096 0)" by simp
  have "(\<Sum>x\<leftarrow>replicate 4096 (0::real). x\<^sup>2) = 0"
    by (simp add: sum_list_replicate)
  then have "sum_loop (replicate 4096 (Num 0)) 0 (Num 0) = Num 0"
    unfolding zeros by (simp only: sum_loop_sum_list)
  moreover have "volume (onaudioprocess (replicate 4096 (Num 0)) s) = Num 0"
    unfolding zeros using frame_volume_rms [OF ne] by (simp add: rms_spec_zeros del: map_replicate)
  moreover have "sum_loop frame 0 (Num 0) = NaN" if nan: "NaN \<in> set frame"
  proof -
    obtain k where "k < length frame" "frame ! k = NaN"
      using nan by (auto simp add: in_set_conv_nth)
    then show ?thesis by (intro sum_loop_NaN_sample [of 0 k]) simp_all
  qed
  ultimately show ?thesis
    by (simp add: frame_volume_rms frame_volume_NaN_sample rms_spec_zeros)
qed

theorem published_volume_witness:
  "[1, 1] \<noteq> ([] :: real list)
   \<and> volume (onaudioprocess [Num 1, Num 1] initial_state) = Num 1
   \<and> NaN \<in> set [Num 1, NaN]
   \<and> volume (onaudioprocess [Num 1, NaN] initial_state) = NaN"
  using published_volume [of "[1, 1]" initial_state "[Num 1, NaN]"]
  by (simp add: rms_spec_def)

lemma volume_of_numbers_in_unit_interval:
  "xs \<noteq> [] \<Longrightarrow> in_unit_interval (volume (onaudioprocess (map Num xs) s))"
proof -
  assume "xs \<noteq> []"
  then have "volume (onaudioprocess (map Num xs) s) = Num (min 1 (rms_spec xs * 5))"
    by (simp add: frame_volume_rms)
  moreover have "0 \<le> min 1 (rms_spec xs * 5)"
    using rms_spec_nonneg [of xs] by simp
  ultimately show ?thesis by simp
qed

text \<open>
  C10, where the source departs from it. The processor delivers a frame of 4096 samples of
  which the first is \<^verbatim>\<open>NaN\<close> and the others are 0. The sum of the squares is
  \<^verbatim>\<open>NaN\<close>, and the volume handed to the visualizer is \<^verbatim>\<open>NaN\<close>, which is not between 0
  and 1. (On a frame whose samples are all numbers the published volume is between 0 and
  1: lemma \<open>volume_of_numbers_in_unit_interval\<close>.)
\<close>

theorem volume_nan_sample:
  "length (NaN # replicate 4095 (Num 0)) = 4096
   \<and> volume (onaudioprocess (NaN # replicate 4095 (Num 0)) initial_state) = NaN
   \<and> \<not> in_unit_interval (volume (onaudioprocess (NaN # replicate 4095 (Num 0)) initial_state))"
  by (simp add: frame_volume_NaN_sample)

section \<open>connect without a credential\<close>

lemma last_addLog [simp]: "last (addLog prev message) = message"
  by (simp add: addLog_def slice_last_def)

text \<open>
  C9. When no credential is configured (\<^verbatim>\<open>process.env.API_KEY\<close> is undefined or
  empty), \<^verbatim>\<open>connect\<close> changes nothing but the log, whatever the microphone and the
  service would have answered: no session is opened or stored, the connected state is
  what it was, and the entry appended to the log has the role \<open>System\<close> and reports
  the missing key.
\<close>

theorem connect_without_credential:
  assumes "falsy (API_KEY env)"
  shows "connect env date s =
           s\<lparr>logs := addLog (logs s)
              \<lparr>role = System, text = ''API Key not found in environment.'', timestamp = date\<rparr>\<rparr>
         \<and> last (logs (connect env date s)) =
              \<lparr>role = System, text = ''API Key not found in environment.'', timestamp = date\<rparr>
         \<and> connected_cell (connect env date s) = connected_cell s
         \<and> remote_sessions (connect env date s) = remote_sessions s
         \<and> next_session (connect env date s) = next_session s
         \<and> sessionPromiseRef (connect env date s) = sessionPromiseRef s"
  using assms by (simp add: connect_def onLog_def)

theorem connect_without_credential_witness:
  "falsy (API_KEY env_no_key)
   \<and> logs (connect env_no_key 7 initial_state)
       = [\<lparr>role = System, text = ''API Key not found in environment.'', timestamp = 7\<rparr>]
   \<and> connected_cell (connect env_no_key 7 initial_state) = False
   \<and> remote_sessions (connect env_no_key 7 initial_state) = []"
  using connect_without_credential [of env_no_key 7 initial_state]
  by (simp add: env_no_key_def falsy_def initial_state_def addLog_def slice_last_def)

section \<open>The message handler, stage by stage\<close>

lemma handle_transcription_fields [simp]:
  "nodes (handle_transcription date m t) = nodes t"
  "next_node (handle_transcription date m t) = next_node t"
  "nextStartTimeRef (handle_transcription date m t) = nextStartTimeRef t"
  "audioSourcesRef (handle_transcription date m t) = audioSourcesRef t"
  "outputAudioContextRef (handle_transcription date m t) = outputAudioContextRef t"
  by (simp_all add: handle_transcription_def onLog_def split: option.splits)

lemma handle_audio_scheduled:
  assumes "outputAudioContextRef t = Some ctx" and "inlineData m = Some (AudioBuffer d)"
  shows "handle_audio now m t =
     (None, t\<lparr>nodes := (nodes t)(next_node t \<mapsto>
                 \<lparr>buffer_duration = d, start_when = max now (nextStartTimeRef t), stop_calls = 0\<rparr>),
              next_node := next_node t + 1,
              nextStartTimeRef := max now (nextStartTimeRef t) + d,
              audioSourcesRef := audioSourcesRef t @ [next_node t]\<rparr>)"
  using assms by (simp add: handle_audio_def Let_def)

lemma handle_audio_idle:
  assumes "outputAudioContextRef t = None \<or> inlineData m = None \<or> inlineData m = Some DecodeFails"
  shows "snd (handle_audio now m t) = t"
  using assms by (auto simp add: handle_audio_def split: option.splits decoded.splits)

lemma handle_audio_cases:
  obtains (scheduled) ctx d where "outputAudioContextRef t = Some ctx" "inlineData m = Some (AudioBuffer d)"
  | (idle) "outputAudioContextRef t = None \<or> inlineData m = None \<or> inlineData m = Some DecodeFails"
  by (cases "outputAudioContextRef t"; cases "inlineData m") (auto, metis decoded.exhaust)

lemma onmessage_not_interrupted:
  assumes "\<not> interrupted m"
  shows "snd (onmessage raises now date m t) = snd (handle_audio now m (handle_transcription date m t))"
  using assms
  by (simp add: onmessage_def handle_interruption_def split: prod.splits option.splits)

lemma stop_nodes:
  "snd (stop raises src h) a =
     (if a = src then map_option (\<lambda>n. n\<lparr>stop_calls := stop_calls n + 1\<rparr>) (h a) else h a)"
  by (simp add: stop_def)

lemma forEach_stop_caught_nodes:
  "forEach_stop_caught raises srcs h a =
     map_option (\<lambda>n. n\<lparr>stop_calls := stop_calls n + count_list srcs a\<rparr>) (h a)"
proof (induction srcs arbitrary: h)
  case Nil
  show ?case by (cases "h a") simp_all
next
  case (Cons src rest)
  show ?case
    by (cases "h a") (auto simp add: Cons.IH stop_nodes)
qed

lemma forEach_stop_no_raise:
  "\<forall>a\<in>set srcs. \<not> raises a \<Longrightarrow>
     forEach_stop raises srcs h = (None, forEach_stop_caught raises srcs h)"
  by (induction srcs arbitrary: h) (simp_all add: stop_def)

lemma stop_calls_flushed:
  "map_option stop_calls (forEach_stop_caught raises srcs h a)
     = map_option (\<lambda>n. stop_calls n + count_list srcs a) (h a)"
  by (cases "h a") (simp_all add: forEach_stop_caught_nodes)

lemma start_when_flushed:
  "map_option start_when (forEach_stop_caught raises srcs h a) = map_option start_when (h a)"
  by (cases "h a") (simp_all add: forEach_stop_caught_nodes)

lemma count_list_distinct: "distinct xs \<Longrightarrow> a \<in> set xs \<Longrightarrow> count_list xs a = 1"
  by (induction xs) auto

lemma count_list_fresh: "a \<notin> set xs \<Longrightarrow> count_list xs a = 0"
  by (induction xs) auto

lemma handle_interruption_flush:
  assumes "interrupted m"
  shows "audioSourcesRef (handle_interruption raises date m t) = []"
    and "nextStartTimeRef (handle_interruption raises date m t) = 0"
    and "nodes (handle_interruption raises date m t) = forEach_stop_caught raises (audioSourcesRef t) (nodes t)"
    and "next_node (handle_interruption raises date m t) = next_node t"
    and "outputAudioContextRef (handle_interruption raises date m t) = outputAudioContextRef t"
  using assms by (simp_all add: handle_interruption_def onLog_def Let_def)

lemma onmessage_completes:
  assumes "inlineData m \<noteq> Some DecodeFails"
  shows "onmessage raises now date m t =
     (None, handle_interruption raises date m (snd (handle_audio now m (handle_transcription date m t))))"
proof (cases rule: handle_audio_cases [of "handle_transcription date m t" m])
  case (scheduled ctx d)
  then show ?thesis
    using handle_audio_scheduled [OF scheduled, of now] by (simp add: onmessage_def)
next
  case idle
  then have "handle_audio now m (handle_transcription date m t) = (None, handle_transcription date m t)"
    using assms by (auto simp add: handle_audio_def split: option.splits decoded.splits)
  then show ?thesis by (simp add: onmessage_def)
qed

section \<open>The pending set stays well-formed\<close>

lemma pending_ok_initial: "pending_ok initial_state"
  by (simp add: pending_ok_def initial_state_def)

lemma pending_ok_onmessage:
  assumes "pending_ok t"
  shows "pending_ok (snd (onmessage raises now date m t))"
proof -
  let ?t1 = "handle_transcription date m t"
  have ok1: "pending_ok ?t1" using assms by (simp add: pending_ok_def)
  have ok2: "pending_ok (snd (handle_audio now m ?t1))"
  proof (cases rule: handle_audio_cases [of ?t1 m])
    case (scheduled ctx d)
    have "\<forall>a\<in>set (audioSourcesRef t). a < next_node t \<and> nodes t a \<noteq> None"
      using assms by (simp add: pending_ok_def list_all_iff)
    moreover have "distinct (audioSourcesRef t)"
      using assms by (simp add: pending_ok_def)
    ultimately show ?thesis
      using handle_audio_scheduled [OF scheduled, of now]
      by (auto simp add: pending_ok_def list_all_iff)
  next
    case idle
    then show ?thesis using ok1 by (simp add: handle_audio_idle)
  qed
  have ok3: "pending_ok (handle_interruption raises date m u)" if "pending_ok u" for u
    using that by (simp add: handle_interruption_def pending_ok_def onLog_def Let_def)
  show ?thesis
    using ok2 ok3
    by (cases "handle_audio now m ?t1") (auto simp add: onmessage_def split: option.splits)
qed

lemma forEach_stop_keeps_nodes:
  "(snd (forEach_stop raises srcs h) a = None) = (h a = None)"
proof (induction srcs arbitrary: h)
  case Nil
  show ?case by simp
next
  case (Cons src rest)
  have "(snd (forEach_stop raises rest (snd (stop raises src h))) a = None) = (h a = None)"
    by (simp add: Cons.IH stop_nodes)
  then show ?case
    by (simp add: stop_def split: option.splits)
qed

lemma pending_ok_disconnect:
  assumes "pending_ok t"
  shows "pending_ok (snd (disconnect raises t))"
proof (cases "\<exists>reason. sessionPromiseRef t = Some (Rejected reason)")
  case True
  then show ?thesis
    using assms by (auto simp add: disconnect_def)
next
  case False
  let ?h = "snd (forEach_stop raises (audioSourcesRef t) (nodes t))"
  have kept: "\<forall>a\<in>set (audioSourcesRef t). a < next_node t \<and> ?h a \<noteq> None"
    using assms by (simp add: pending_ok_def list_all_iff forEach_stop_keeps_nodes)
  have dist: "distinct (audioSourcesRef t)"
    using assms by (simp add: pending_ok_def)
  obtain e h where r: "forEach_stop raises (audioSourcesRef t) (nodes t) = (e, h)"
    by (cases "forEach_stop raises (audioSourcesRef t) (nodes t)")
  then have h: "?h = h" by simp
  show ?thesis
    using False kept dist r unfolding h
    by (cases e)
      (auto simp add: disconnect_def pending_ok_def list_all_iff Let_def
        split: option.splits session_promise.splits)
qed

lemma pending_ok_others:
  assumes "pending_ok t"
  shows "pending_ok (connect env date t)"
    and "pending_ok (onopen date t)"
    and "pending_ok (onclose session date t)"
    and "pending_ok (onerror err_type date t)"
    and "pending_ok (onended source t)"
    and "pending_ok (onaudioprocess inputData t)"
  using assms
  by (simp_all add: pending_ok_def connect_def connection_failed_def onopen_def onclose_def
      onerror_def onended_def onaudioprocess_def onLog_def Let_def list_all_iff distinct_removeAll
      split: option.splits session_promise.splits)

section \<open>Back-to-back scheduling\<close>

lemma back_to_back_step:
  assumes inv: "back_to_back base t" and ni: "\<not> interrupted m"
  shows "back_to_back base (snd (onmessage raises now date m t))"
proof -
  let ?t1 = "handle_transcription date m t"
  have inv1: "back_to_back base ?t1"
    using inv by (simp add: back_to_back_def)
  show ?thesis
  proof (cases rule: handle_audio_cases [of ?t1 m])
    case (scheduled ctx d)
    let ?start = "max now (nextStartTimeRef ?t1)"
    let ?t2 = "?t1\<lparr>nodes := (nodes ?t1)(next_node ?t1 \<mapsto>
                 \<lparr>buffer_duration = d, start_when = ?start, stop_calls = 0\<rparr>),
              next_node := next_node ?t1 + 1,
              nextStartTimeRef := ?start + d,
              audioSourcesRef := audioSourcesRef ?t1 @ [next_node ?t1]\<rparr>"
    have eq: "snd (onmessage raises now date m t) = ?t2"
      using handle_audio_scheduled [OF scheduled, of now] ni
      by (simp add: onmessage_not_interrupted)
    have base: "base \<le> next_node ?t1"
      using inv1 by (simp add: back_to_back_def)
    have adj: "\<exists>n n'. nodes ?t2 a = Some n \<and> nodes ?t2 (Suc a) = Some n'
               \<and> start_when n + buffer_duration n \<le> start_when n'"
      if a: "base \<le> a" "Suc a < next_node ?t2" for a
    proof (cases "Suc a < next_node ?t1")
      case True
      then show ?thesis
        using inv1 a by (auto simp add: back_to_back_def)
    next
      case False
      with a have last: "Suc a = next_node ?t1" by simp
      then have "base < next_node ?t1" using a by simp
      then obtain n where n: "nodes ?t1 (next_node ?t1 - 1) = Some n"
          "nextStartTimeRef ?t1 = start_when n + buffer_duration n"
        using inv1 by (auto simp add: back_to_back_def)
      have "a = next_node ?t1 - 1" using last by simp
      then show ?thesis
        using n last by auto
    qed
    have "back_to_back base ?t2"
      unfolding back_to_back_def
    proof (intro conjI allI impI)
      show "base \<le> next_node ?t2" using base by simp
    next
      fix a assume "base \<le> a \<and> Suc a < next_node ?t2"
      then show "\<exists>n n'. nodes ?t2 a = Some n \<and> nodes ?t2 (Suc a) = Some n'
               \<and> start_when n + buffer_duration n \<le> start_when n'"
        using adj by blast
    next
      show "\<exists>n. nodes ?t2 (next_node ?t2 - 1) = Some n
               \<and> nextStartTimeRef ?t2 = start_when n + buffer_duration n"
        by simp
    qed
    then show ?thesis by (simp only: eq)
  next
    case idle
    then have "snd (onmessage raises now date m t) = ?t1"
      using ni by (simp add: onmessage_not_interrupted handle_audio_idle)
    then show ?thesis using inv1 by simp
  qed
qed

lemma back_to_back_onmessages:
  assumes "list_all (\<lambda>(now, date, m). \<not> interrupted m) arrivals" and "back_to_back base t"
  shows "back_to_back base (onmessages raises arrivals t)"
  using assms
proof (induction arrivals arbitrary: t)
  case Nil
  then show ?case by simp
next
  case (Cons x rest)
  obtain now date m where x: "x = (now, date, m)" by (cases x)
  with Cons.prems have "\<not> interrupted m" by simp
  then have "back_to_back base (snd (onmessage raises now date m t))"
    using Cons.prems(2) by (rule back_to_back_step [rotated])
  moreover have "list_all (\<lambda>(now, date, m). \<not> interrupted m) rest"
    using Cons.prems(1) by simp
  ultimately show ?case
    using Cons.IH x by simp
qed

lemma back_to_back_start: "back_to_back (next_node s) s"
  by (auto simp add: back_to_back_def)

lemma onmessage_keeps_nodes:
  assumes "\<not> interrupted m" and "a < next_node t"
  shows "nodes (snd (onmessage raises now date m t)) a = nodes t a"
    and "next_node t \<le> next_node (snd (onmessage raises now date m t))"
    and "outputAudioContextRef (snd (onmessage raises now date m t)) = outputAudioContextRef t"
proof -
  let ?t1 = "handle_transcription date m t"
  have "nodes (snd (onmessage raises now date m t)) a = nodes t a
      \<and> next_node t \<le> next_node (snd (onmessage raises now date m t))
      \<and> outputAudioContextRef (snd (onmessage raises now date m t)) = outputAudioContextRef t"
  proof (cases rule: handle_audio_cases [of ?t1 m])
    case (scheduled ctx d)
    then show ?thesis
      using assms handle_audio_scheduled [OF scheduled, of now]
      by (simp add: onmessage_not_interrupted)
  next
    case idle
    then show ?thesis
      using assms by (simp add: onmessage_not_interrupted handle_audio_idle)
  qed
  then show "nodes (snd (onmessage raises now date m t)) a = nodes t a"
    and "next_node t \<le> next_node (snd (onmessage raises now date m t))"
    and "outputAudioContextRef (snd (onmessage raises now date m t)) = outputAudioContextRef t"
    by simp_all
qed

lemma onmessages_keeps_nodes:
  assumes "list_all (\<lambda>(now, date, m). \<not> interrupted m) arrivals" and "a < next_node t"
  shows "nodes (onmessages raises arrivals t) a = nodes t a"
  using assms
proof (induction arrivals arbitrary: t)
  case Nil
  then show ?case by simp
next
  case (Cons x rest)
  obtain now date m where x: "x = (now, date, m)" by (cases x)
  with Cons.prems have ni: "\<not> interrupted m" by simp
  let ?t' = "snd (onmessage raises now date m t)"
  have "a < next_node ?t'"
    using onmessage_keeps_nodes(2) [OF ni Cons.prems(2), of raises now date] Cons.prems(2)
    by simp
  moreover have "list_all (\<lambda>(now, date, m). \<not> interrupted m) rest"
    using Cons.prems(1) by simp
  ultimately have "nodes (onmessages raises rest ?t') a = nodes ?t' a"
    by (rule Cons.IH [rotated])
  then show ?case
    using onmessage_keeps_nodes(1) [OF ni Cons.prems(2)] x by simp
qed

lemma onmessages_chunks:
  assumes "list_all (\<lambda>(now, date, m). carries_audio m) arrivals"
    and "outputAudioContextRef t \<noteq> None"
  shows "next_node (onmessages raises arrivals t) = next_node t + length arrivals
     \<and> (\<forall>k<length arrivals.
          map_option buffer_duration (nodes (onmessages raises arrivals t) (next_node t + k))
            = chunk_duration (snd (snd (arrivals ! k))))"
  using assms
proof (induction arrivals arbitrary: t)
  case Nil
  then show ?case by simp
next
  case (Cons x rest)
  obtain now date m where x: "x = (now, date, m)" by (cases x)
  with Cons.prems(1) have ca: "carries_audio m" by simp
  then obtain d where d: "inlineData m = Some (AudioBuffer d)" and ni: "\<not> interrupted m"
    by (auto simp add: carries_audio_def split: option.splits decoded.splits)
  obtain ctx where ctx: "outputAudioContextRef (handle_transcription date m t) = Some ctx"
    using Cons.prems(2) by auto
  let ?t' = "snd (onmessage raises now date m t)"
  have step: "next_node ?t' = next_node t + 1"
      "map_option buffer_duration (nodes ?t' (next_node t)) = Some d"
      "outputAudioContextRef ?t' \<noteq> None"
    using handle_audio_scheduled [OF ctx d, of now] ni Cons.prems(2)
    by (simp_all add: onmessage_not_interrupted)
  have rest: "list_all (\<lambda>(now, date, m). carries_audio m) rest"
    using Cons.prems(1) by simp
  then have rest_ni: "list_all (\<lambda>(now, date, m). \<not> interrupted m) rest"
    by (induction rest) (auto simp add: carries_audio_def split: option.splits decoded.splits)
  have IH: "next_node (onmessages raises rest ?t') = next_node ?t' + length rest
     \<and> (\<forall>k<length rest.
          map_option buffer_duration (nodes (onmessages raises rest ?t') (next_node ?t' + k))
            = chunk_duration (snd (snd (rest ! k))))"
    using rest step(3) by (rule Cons.IH)
  have first: "nodes (onmessages raises rest ?t') (next_node t) = nodes ?t' (next_node t)"
    using rest_ni by (rule onmessages_keeps_nodes) (simp add: step(1))
  show ?case
  proof (intro conjI allI impI)
    show "next_node (onmessages raises (x # rest) t) = next_node t + length (x # rest)"
      using IH step(1) x by simp
  next
    fix k assume k: "k < length (x # rest)"
    show "map_option buffer_duration (nodes (onmessages raises (x # rest) t) (next_node t + k))
            = chunk_duration (snd (snd ((x # rest) ! k)))"
    proof (cases k)
      case 0
      then show ?thesis
        using first step(2) x d by (simp add: chunk_duration_def)
    next
      case (Suc j)
      then have "j < length rest" using k by simp
      then have "map_option buffer_duration (nodes (onmessages raises rest ?t') (next_node ?t' + j))
            = chunk_duration (snd (snd (rest ! j)))"
        using IH by blast
      then show ?thesis
        using Suc x step(1) by simp
    qed
  qed
qed

lemma three_pending_eval:
  "audioSourcesRef three_pending = [0, 1, 2]"
  "nextStartTimeRef three_pending = 11.5"
  "connected_cell three_pending = True"
  "volume three_pending = Num 1"
  "sessionPromiseRef three_pending = Some (Fulfilled 0)"
  "remote_sessions three_pending = [0]"
  "outputAudioContextRef three_pending = Some Running"
  "next_node three_pending = 3"
  "nodes three_pending 0 = Some \<lparr>buffer_duration = 0.5, start_when = 10, stop_calls = 0\<rparr>"
  "nodes three_pending (Suc 0) = Some \<lparr>buffer_duration = 0.5, start_when = 10.5, stop_calls = 0\<rparr>"
  "nodes three_pending 2 = Some \<lparr>buffer_duration = 0.5, start_when = 11, stop_calls = 0\<rparr>"
  by (simp_all add: three_pending_def onmessage_def handle_audio_def handle_transcription_def
      handle_interruption_def audio_message_def onaudioprocess_def frame_volume_ones
      onopen_def connect_def env_ready_def falsy_def onLog_def initial_state_def Let_def)

text \<open>
  C2. When a message brings audio that decodes to a buffer of duration \<open>d\<close> and an output
  context exists, the scheduler (lines 93 to 116), and with it the whole handler when the
  message is no interruption, creates a source, starts it at the maximum of the output
  clock and the cursor, appends it to the pending set and moves the cursor to that start
  plus \<open>d\<close>. With duration 0.5, clock 10 and cursor 9 the start is 10 and the cursor
  becomes 10.5. After any run of messages without an interruption, every source created
  in the run starts no earlier than the source created before it ends; and when every
  message of the run brings a chunk, the chunk of the \<open>k\<close>-th message is the \<open>k\<close>-th
  source created.
\<close>

theorem playback_schedule:
  "(outputAudioContextRef s \<noteq> None \<and> inlineData message = Some (AudioBuffer d) \<longrightarrow>
      fst (handle_audio now message s) = None
      \<and> nodes (snd (handle_audio now message s)) (next_node s)
          = Some \<lparr>buffer_duration = d, start_when = max now (nextStartTimeRef s), stop_calls = 0\<rparr>
      \<and> audioSourcesRef (snd (handle_audio now message s)) = audioSourcesRef s @ [next_node s]
      \<and> nextStartTimeRef (snd (handle_audio now message s)) = max now (nextStartTimeRef s) + d)
   \<and> (outputAudioContextRef s \<noteq> None \<and> inlineData message = Some (AudioBuffer d)
        \<and> \<not> interrupted message \<longrightarrow>
      fst (onmessage raises now date message s) = None
      \<and> nodes (snd (onmessage raises now date message s)) (next_node s)
          = Some \<lparr>buffer_duration = d, start_when = max now (nextStartTimeRef s), stop_calls = 0\<rparr>
      \<and> audioSourcesRef (snd (onmessage raises now date message s)) = audioSourcesRef s @ [next_node s]
      \<and> nextStartTimeRef (snd (onmessage raises now date message s)) = max now (nextStartTimeRef s) + d)
   \<and> (outputAudioContextRef s \<noteq> None \<and> inlineData message = Some (AudioBuffer 0.5)
        \<and> \<not> interrupted message \<and> nextStartTimeRef s = 9 \<longrightarrow>
      map_option start_when (nodes (snd (onmessage raises 10 date message s)) (next_node s)) = Some 10
      \<and> nextStartTimeRef (snd (onmessage raises 10 date message s)) = 10.5)
   \<and> (list_all (\<lambda>(now, date, m). \<not> interrupted m) arrivals
        \<and> next_node s \<le> a \<and> Suc a < next_node (onmessages raises arrivals s) \<longrightarrow>
      (\<exists>n n'. nodes (onmessages raises arrivals s) a = Some n
         \<and> nodes (onmessages raises arrivals s) (Suc a) = Some n'
         \<and> start_when n + buffer_duration n \<le> start_when n'))
   \<and> (list_all (\<lambda>(now, date, m). carries_audio m) arrivals \<and> outputAudioContextRef s \<noteq> None \<longrightarrow>
      next_node (onmessages raises arrivals s) = next_node s + length arrivals
      \<and> (\<forall>k<length arrivals.
           map_option buffer_duration (nodes (onmessages raises arrivals s) (next_node s + k))
             = chunk_duration (snd (snd (arrivals ! k)))))"
proof -
  have sched: "fst (handle_audio now' message' s) = None
      \<and> nodes (snd (handle_audio now' message' s)) (next_node s)
          = Some \<lparr>buffer_duration = d', start_when = max now' (nextStartTimeRef s), stop_calls = 0\<rparr>
      \<and> audioSourcesRef (snd (handle_audio now' message' s)) = audioSourcesRef s @ [next_node s]
      \<and> nextStartTimeRef (snd (handle_audio now' message' s)) = max now' (nextStartTimeRef s) + d'"
    if ctx: "outputAudioContextRef s \<noteq> None" and audio: "inlineData message' = Some (AudioBuffer d')"
    for now' message' d'
  proof -
    obtain c where "outputAudioContextRef s = Some c" using ctx by auto
    then show ?thesis
      using handle_audio_scheduled [OF _ audio, of s c now'] by simp
  qed
  have whole: "fst (onmessage raises now' date message' s) = None
      \<and> nodes (snd (onmessage raises now' date message' s)) (next_node s)
          = Some \<lparr>buffer_duration = d', start_when = max now' (nextStartTimeRef s), stop_calls = 0\<rparr>
      \<and> audioSourcesRef (snd (onmessage raises now' date message' s)) = audioSourcesRef s @ [next_node s]
      \<and> nextStartTimeRef (snd (onmessage raises now' date message' s)) = max now' (nextStartTimeRef s) + d'"
    if ctx: "outputAudioContextRef s \<noteq> None" and audio: "inlineData message' = Some (AudioBuffer d')"
       and ni: "\<not> interrupted message'"
    for now' message' d'
  proof -
    obtain c where "outputAudioContextRef (handle_transcription date message' s) = Some c"
      using ctx by auto
    then have "handle_audio now' message' (handle_transcription date message' s) =
       (None, (handle_transcription date message' s)\<lparr>nodes := (nodes s)(next_node s \<mapsto>
                 \<lparr>buffer_duration = d', start_when = max now' (nextStartTimeRef s), stop_calls = 0\<rparr>),
              next_node := next_node s + 1,
              nextStartTimeRef := max now' (nextStartTimeRef s) + d',
              audioSourcesRef := audioSourcesRef s @ [next_node s]\<rparr>)"
      using handle_audio_scheduled [OF _ audio, of "handle_transcription date message' s" c now']
      by simp
    then show ?thesis
      using ni by (simp add: onmessage_def handle_interruption_def)
  qed
  have scenario: "map_option start_when (nodes (snd (onmessage raises 10 date message s)) (next_node s)) = Some 10
      \<and> nextStartTimeRef (snd (onmessage raises 10 date message s)) = 10.5"
    if "outputAudioContextRef s \<noteq> None" "inlineData message = Some (AudioBuffer 0.5)"
       "\<not> interrupted message" "nextStartTimeRef s = 9"
    using whole [OF that(1) that(2) that(3), of 10] that(4) by simp
  have seq: "\<exists>n n'. nodes (onmessages raises arrivals s) a = Some n
         \<and> nodes (onmessages raises arrivals s) (Suc a) = Some n'
         \<and> start_when n + buffer_duration n \<le> start_when n'"
    if "list_all (\<lambda>(now, date, m). \<not> interrupted m) arrivals"
       "next_node s \<le> a" "Suc a < next_node (onmessages raises arrivals s)"
  proof -
    have "back_to_back (next_node s) (onmessages raises arrivals s)"
      using that(1) back_to_back_start by (rule back_to_back_onmessages)
    then show ?thesis
      using that(2) that(3) by (simp add: back_to_back_def)
  qed
  show ?thesis
    using sched [of message d now] whole [of message d now] scenario seq
      onmessages_chunks [of arrivals s raises]
    by blast
qed

theorem playback_schedule_witness:
  "outputAudioContextRef ((connect env_ready 1 initial_state)\<lparr>nextStartTimeRef := 9\<rparr>) \<noteq> None
   \<and> inlineData (audio_message 0.5) = Some (AudioBuffer 0.5)
   \<and> \<not> interrupted (audio_message 0.5)
   \<and> nextStartTimeRef ((connect env_ready 1 initial_state)\<lparr>nextStartTimeRef := 9\<rparr>) = 9
   \<and> map_option start_when
        (nodes (snd (onmessage stop_never_raises 10 2 (audio_message 0.5)
           ((connect env_ready 1 initial_state)\<lparr>nextStartTimeRef := 9\<rparr>))) 0) = Some 10
   \<and> nextStartTimeRef (snd (onmessage stop_never_raises 10 2 (audio_message 0.5)
           ((connect env_ready 1 initial_state)\<lparr>nextStartTimeRef := 9\<rparr>))) = 10.5
   \<and> list_all (\<lambda>(now, date, m). \<not> interrupted m)
        [(10::real, 3::nat, audio_message 0.5), (10, 4, audio_message 0.5), (10, 5, audio_message 0.5)]
   \<and> (\<exists>n n'. nodes three_pending (Suc 0) = Some n \<and> nodes three_pending (Suc (Suc 0)) = Some n'
        \<and> start_when n + buffer_duration n \<le> start_when n')"
proof -
  let ?s = "(connect env_ready 1 initial_state)\<lparr>nextStartTimeRef := 9\<rparr>"
  let ?base = "onaudioprocess [Num 1, Num 1] (onopen 2 (connect env_ready 1 initial_state))"
  let ?arrivals = "[(10::real, 3::nat, audio_message 0.5), (10, 4, audio_message 0.5),
     (10, 5, audio_message 0.5)]"
  have ctx: "outputAudioContextRef ?s \<noteq> None"
    by (simp add: connect_def env_ready_def falsy_def onLog_def Let_def)
  have audio: "inlineData (audio_message 0.5) = Some (AudioBuffer 0.5)"
    and ni: "\<not> interrupted (audio_message 0.5)"
    by (simp_all add: audio_message_def)
  have cursor: "nextStartTimeRef ?s = 9" by simp
  have first: "next_node ?s = 0"
    by (simp add: connect_def env_ready_def falsy_def onLog_def initial_state_def Let_def)
  have scenario: "map_option start_when
        (nodes (snd (onmessage stop_never_raises 10 2 (audio_message 0.5) ?s)) 0) = Some 10
      \<and> nextStartTimeRef (snd (onmessage stop_never_raises 10 2 (audio_message 0.5) ?s)) = 10.5"
    using playback_schedule [where s = ?s and message = "audio_message 0.5" and date = 2
        and raises = stop_never_raises] ctx audio ni cursor first
    by metis
  have all: "list_all (\<lambda>(now, date, m). \<not> interrupted m) ?arrivals"
    by (simp add: audio_message_def)
  have run: "onmessages stop_never_raises ?arrivals ?base = three_pending"
    by (simp only: three_pending_def)
  have "next_node ?base = 0"
    by (simp add: onaudioprocess_def onopen_def connect_def env_ready_def falsy_def onLog_def
        initial_state_def Let_def)
  then have range: "next_node ?base \<le> Suc 0"
      "Suc (Suc 0) < next_node (onmessages stop_never_raises ?arrivals ?base)"
    by (simp_all only: run three_pending_eval)
  have "\<exists>n n'. nodes (onmessages stop_never_raises ?arrivals ?base) (Suc 0) = Some n
        \<and> nodes (onmessages stop_never_raises ?arrivals ?base) (Suc (Suc 0)) = Some n'
        \<and> start_when n + buffer_duration n \<le> start_when n'"
    using playback_schedule [where s = ?base and raises = stop_never_raises
        and arrivals = ?arrivals and a = "Suc 0"] all range
    by blast
  then have chain: "\<exists>n n'. nodes three_pending (Suc 0) = Some n
        \<and> nodes three_pending (Suc (Suc 0)) = Some n'
        \<and> start_when n + buffer_duration n \<le> start_when n'"
    by (simp only: run)
  show ?thesis
    using ctx audio ni cursor scenario all chain by blast
qed

section \<open>The flush on an interruption\<close>

text \<open>
  What the handler does with an interruption when the decoder does not raise on the
  audio of the same message: the message is handled to the end, whatever \<^verbatim>\<open>stop()\<close>
  raises: every source that was pending gets one \<^verbatim>\<open>stop()\<close> call, as does the source
  the message itself may have scheduled; the pending set is empty and the cursor is 0
  afterwards. The chunk of any later message is then started at the maximum of the output
  clock and 0: never before the clock, and at the clock itself, the clock not being
  negative.
\<close>

lemma interruption_flush:
  assumes ok: "pending_ok s" and int: "interrupted message"
    and dec: "inlineData message \<noteq> Some DecodeFails"
  shows "fst (onmessage raises now date message s) = None
     \<and> audioSourcesRef (snd (onmessage raises now date message s)) = []
     \<and> nextStartTimeRef (snd (onmessage raises now date message s)) = 0
     \<and> (\<forall>a\<in>set (audioSourcesRef s).
          \<exists>n n'. nodes s a = Some n
            \<and> nodes (snd (onmessage raises now date message s)) a = Some n'
            \<and> stop_calls n' = stop_calls n + 1)
     \<and> (\<forall>d. inlineData message = Some (AudioBuffer d) \<and> outputAudioContextRef s \<noteq> None \<longrightarrow>
          map_option stop_calls (nodes (snd (onmessage raises now date message s)) (next_node s))
            = Some 1)
     \<and> (\<forall>raises' now' date' message' d'.
          inlineData message' = Some (AudioBuffer d') \<and> outputAudioContextRef s \<noteq> None \<longrightarrow>
          map_option start_when
            (nodes (snd (onmessage raises' now' date' message'
                          (snd (onmessage raises now date message s))))
               (next_node (snd (onmessage raises now date message s))))
            = Some (max now' 0)
          \<and> now' \<le> max now' 0 \<and> (0 \<le> now' \<longrightarrow> max now' 0 = now'))"
proof -
  let ?t1 = "handle_transcription date message s"
  let ?t2 = "snd (handle_audio now message ?t1)"
  let ?s' = "snd (onmessage raises now date message s)"
  have s': "onmessage raises now date message s = (None, handle_interruption raises date message ?t2)"
    using dec by (rule onmessage_completes)
  have fresh: "next_node s \<notin> set (audioSourcesRef s)"
    using ok by (auto simp add: pending_ok_def list_all_iff)
  have dist: "distinct (audioSourcesRef s)"
    using ok by (simp add: pending_ok_def)
  have old: "map_option stop_calls (nodes ?s' a) = map_option (\<lambda>n. stop_calls n + 1) (nodes s a)"
    if a: "a \<in> set (audioSourcesRef s)" for a
  proof (cases rule: handle_audio_cases [of ?t1 message])
    case (scheduled ctx d)
    have "a \<noteq> next_node s" using a fresh by auto
    moreover have "count_list (audioSourcesRef s @ [next_node s]) a = 1"
      using a fresh dist by (intro count_list_distinct) auto
    ultimately show ?thesis
      using handle_audio_scheduled [OF scheduled, of now] int
      by (simp add: s' handle_interruption_flush stop_calls_flushed del: count_list.simps count_list_append)
  next
    case idle
    then have "?t2 = ?t1" by (rule handle_audio_idle)
    then show ?thesis
      using int a dist
      by (simp add: s' handle_interruption_flush stop_calls_flushed count_list_distinct)
  qed
  have new: "map_option stop_calls (nodes ?s' (next_node s)) = Some 1"
    if d: "inlineData message = Some (AudioBuffer d)" and ctx: "outputAudioContextRef s \<noteq> None" for d
  proof -
    obtain c where "outputAudioContextRef ?t1 = Some c" using ctx by auto
    then show ?thesis
      using handle_audio_scheduled [OF _ d, of ?t1 c now] int fresh
      by (simp add: s' handle_interruption_flush stop_calls_flushed count_list_fresh)
  qed
  have old': "\<exists>n n'. nodes s a = Some n \<and> nodes ?s' a = Some n' \<and> stop_calls n' = stop_calls n + 1"
    if a: "a \<in> set (audioSourcesRef s)" for a
  proof -
    obtain n where n: "nodes s a = Some n"
      using ok a by (auto simp add: pending_ok_def list_all_iff)
    then obtain n' where "nodes ?s' a = Some n'" "stop_calls n' = stop_calls n + 1"
      using old [OF a] by auto
    then show ?thesis using n by simp
  qed
  have flushed: "audioSourcesRef ?s' = []" "nextStartTimeRef ?s' = 0"
    using int by (simp_all add: s' handle_interruption_flush)
  have ctx_kept: "outputAudioContextRef ?s' = outputAudioContextRef s"
  proof (cases rule: handle_audio_cases [of ?t1 message])
    case (scheduled ctx d)
    then show ?thesis
      using handle_audio_scheduled [OF scheduled, of now] int
      by (simp add: s' handle_interruption_flush)
  next
    case idle
    then have "?t2 = ?t1" by (rule handle_audio_idle)
    then show ?thesis using int by (simp add: s' handle_interruption_flush)
  qed
  have nxt: "map_option start_when
            (nodes (snd (onmessage raises' now' date' message' ?s')) (next_node ?s'))
            = Some (max now' 0)"
    if d': "inlineData message' = Some (AudioBuffer d')" and ctx: "outputAudioContextRef s \<noteq> None"
    for raises' now' date' message' d'
  proof -
    let ?u1 = "handle_transcription date' message' ?s'"
    obtain c where c: "outputAudioContextRef ?u1 = Some c" using ctx ctx_kept by auto
    have dec': "inlineData message' \<noteq> Some DecodeFails" using d' by simp
    have sched: "nodes (snd (handle_audio now' message' ?u1)) (next_node ?s')
        = Some \<lparr>buffer_duration = d', start_when = max now' 0, stop_calls = 0\<rparr>"
      using handle_audio_scheduled [OF c d', of now'] flushed by simp
    show ?thesis
    proof (cases "interrupted message'")
      case True
      then show ?thesis
        using sched
        by (simp add: onmessage_completes [OF dec'] handle_interruption_flush start_when_flushed)
    next
      case False
      then show ?thesis
        using sched by (simp add: onmessage_not_interrupted)
    qed
  qed
  show ?thesis
    using s' flushed old' new nxt by auto
qed

lemma interruption_flush_example:
  "pending_ok three_pending \<and> interrupted interruption_message
   \<and> inlineData interruption_message \<noteq> Some DecodeFails
   \<and> audioSourcesRef three_pending = [0, 1, 2]
   \<and> fst (onmessage stop_raises_on_first 11 6 interruption_message three_pending) = None
   \<and> audioSourcesRef (snd (onmessage stop_raises_on_first 11 6 interruption_message three_pending)) = []
   \<and> nextStartTimeRef (snd (onmessage stop_raises_on_first 11 6 interruption_message three_pending)) = 0
   \<and> map_option stop_calls
        (nodes (snd (onmessage stop_raises_on_first 11 6 interruption_message three_pending)) 2) = Some 1
   \<and> map_option start_when
        (nodes (snd (onmessage stop_never_raises 11.2 7 (audio_message 0.5)
           (snd (onmessage stop_raises_on_first 11 6 interruption_message three_pending)))) 3)
       = Some 11.2"
  using interruption_flush [where s = three_pending and message = interruption_message
      and raises = stop_raises_on_first and now = 11 and date = 6]
  by (simp add: three_pending_eval pending_ok_def interruption_message_def audio_message_def
      onmessage_def handle_audio_def handle_transcription_def handle_interruption_def onLog_def
      stop_def stop_raises_on_first_def Let_def)

text \<open>
  C3, where the source departs from it. Three sources are pending and the cursor stands at
  11.5. A message arrives at output clock 11 with the interruption flag and with audio
  data on which \<^verbatim>\<open>decodeAudioData\<close> raises. The handler awaits the decoder (line 96)
  before it looks at the flag (line 119), and nothing catches the error: the handler ends
  with it, no source gets a \<^verbatim>\<open>stop()\<close> call, the pending set still holds the three
  sources and the cursor still stands at 11.5. The next chunk, arriving at clock 11.2, is
  started at 11.5.
\<close>

theorem interruption_lost_on_decode_error:
  "interrupted undecodable_interruption_message
   \<and> audioSourcesRef three_pending = [0, 1, 2]
   \<and> fst (onmessage stop_never_raises 11 6 undecodable_interruption_message three_pending)
       = Some DecodeError
   \<and> audioSourcesRef
        (snd (onmessage stop_never_raises 11 6 undecodable_interruption_message three_pending))
       = [0, 1, 2]
   \<and> nextStartTimeRef
        (snd (onmessage stop_never_raises 11 6 undecodable_interruption_message three_pending))
       = 11.5
   \<and> map_option stop_calls (nodes
        (snd (onmessage stop_never_raises 11 6 undecodable_interruption_message three_pending)) 0)
       = Some 0
   \<and> map_option stop_calls (nodes
        (snd (onmessage stop_never_raises 11 6 undecodable_interruption_message three_pending)) (Suc 0))
       = Some 0
   \<and> map_option stop_calls (nodes
        (snd (onmessage stop_never_raises 11 6 undecodable_interruption_message three_pending)) 2)
       = Some 0
   \<and> map_option start_when
        (nodes (snd (onmessage stop_never_raises 11.2 7 (audio_message 0.5)
           (snd (onmessage stop_never_raises 11 6 undecodable_interruption_message three_pending)))) 3)
       = Some 11.5"
  by (simp add: three_pending_eval undecodable_interruption_message_def audio_message_def
      onmessage_def handle_audio_def handle_transcription_def handle_interruption_def Let_def)

section \<open>The cursor\<close>

lemma disconnect_cursor: "nextStartTimeRef (snd (disconnect raises s)) = nextStartTimeRef s"
  by (simp add: disconnect_def Let_def split: option.splits session_promise.splits prod.splits)

lemma onmessage_cursor_advances:
  assumes ni: "\<not> interrupted message"
    and nonneg: "\<forall>d. inlineData message = Some (AudioBuffer d) \<longrightarrow> 0 \<le> d"
  shows "nextStartTimeRef s \<le> nextStartTimeRef (snd (onmessage raises now date message s))"
proof (cases rule: handle_audio_cases [of "handle_transcription date message s" message])
  case (scheduled ctx d)
  then have "0 \<le> d" using nonneg by simp
  then show ?thesis
    using handle_audio_scheduled [OF scheduled, of now] ni
    by (simp add: onmessage_not_interrupted)
next
  case idle
  then show ?thesis
    using ni by (simp add: onmessage_not_interrupted handle_audio_idle)
qed

lemma connect_cursor:
  "nextStartTimeRef (connect env date s) =
     (if falsy (API_KEY env) \<or> GoogleGenAI_raises env \<noteq> None
         \<or> inputAudioContext_raises env \<noteq> None \<or> outputAudioContext_raises env \<noteq> None
      then nextStartTimeRef s else 0)"
  by (auto simp add: connect_def connection_failed_def onLog_def Let_def split: option.splits)

lemma onmessage_flush_cursor:
  assumes "interrupted message" and "fst (onmessage raises now date message s) = None"
  shows "nextStartTimeRef (snd (onmessage raises now date message s)) = 0"
proof -
  obtain e s' where r: "handle_audio now message (handle_transcription date message s) = (e, s')"
    by (cases "handle_audio now message (handle_transcription date message s)")
  then have "e = None"
    using assms(2) by (cases e) (simp_all add: onmessage_def)
  then have "snd (onmessage raises now date message s) = handle_interruption raises date message s'"
    using r by (simp add: onmessage_def)
  then show ?thesis
    using assms(1) by (simp add: handle_interruption_flush)
qed

text \<open>
  C5, as amended. The cursor never moves back when a message without the interruption
  flag is handled (the duration of a buffer not being negative). The flush on an
  interruption (lines 119 to 126) sets it to 0: it is 0 after every message with the
  interruption flag whose handler runs to its end, as it does whenever the message has no
  audio or its audio decodes. \<^verbatim>\<open>connect\<close> sets it to 0 when a credential is configured
  and the service client and the two audio contexts are constructed without an error,
  and leaves it as it is otherwise. \<^verbatim>\<open>disconnect\<close> leaves it as it is, as do
  \<^verbatim>\<open>onopen\<close>, \<^verbatim>\<open>onclose\<close>, \<^verbatim>\<open>onerror\<close>, \<^verbatim>\<open>onended\<close> and
  \<^verbatim>\<open>onaudioprocess\<close>.
\<close>

theorem cursor_changes:
  "(\<not> interrupted message \<and> (\<forall>d. inlineData message = Some (AudioBuffer d) \<longrightarrow> 0 \<le> d) \<longrightarrow>
      nextStartTimeRef s \<le> nextStartTimeRef (snd (onmessage raises now date message s)))
   \<and> (interrupted message \<longrightarrow>
      nextStartTimeRef (handle_interruption raises date message s) = 0)
   \<and> (interrupted message \<and> fst (onmessage raises now date message s) = None \<longrightarrow>
      nextStartTimeRef (snd (onmessage raises now date message s)) = 0)
   \<and> (inlineData message = None \<or> (\<exists>d. inlineData message = Some (AudioBuffer d)) \<longrightarrow>
      fst (onmessage raises now date message s) = None)
   \<and> nextStartTimeRef (connect env date s) =
       (if falsy (API_KEY env) \<or> GoogleGenAI_raises env \<noteq> None
           \<or> inputAudioContext_raises env \<noteq> None \<or> outputAudioContext_raises env \<noteq> None
        then nextStartTimeRef s else 0)
   \<and> nextStartTimeRef (snd (disconnect raises s)) = nextStartTimeRef s
   \<and> nextStartTimeRef (onopen date s) = nextStartTimeRef s
   \<and> nextStartTimeRef (onclose session date s) = nextStartTimeRef s
   \<and> nextStartTimeRef (onerror err_type date s) = nextStartTimeRef s
   \<and> nextStartTimeRef (onended source s) = nextStartTimeRef s
   \<and> nextStartTimeRef (onaudioprocess inputData s) = nextStartTimeRef s"
proof -
  have flush: "nextStartTimeRef (handle_interruption raises date message s) = 0"
    if "interrupted message"
    using that by (simp add: handle_interruption_flush)
  have reset: "nextStartTimeRef (snd (onmessage raises now date message s)) = 0"
    if "interrupted message" "fst (onmessage raises now date message s) = None"
    using that by (rule onmessage_flush_cursor)
  have completes: "fst (onmessage raises now date message s) = None"
    if "inlineData message = None \<or> (\<exists>d. inlineData message = Some (AudioBuffer d))"
  proof -
    have "inlineData message \<noteq> Some DecodeFails" using that by auto
    then show ?thesis by (simp add: onmessage_completes)
  qed
  have others: "nextStartTimeRef (onopen date s) = nextStartTimeRef s"
      "nextStartTimeRef (onclose session date s) = nextStartTimeRef s"
      "nextStartTimeRef (onerror err_type date s) = nextStartTimeRef s"
      "nextStartTimeRef (onended source s) = nextStartTimeRef s"
      "nextStartTimeRef (onaudioprocess inputData s) = nextStartTimeRef s"
    by (simp_all add: onopen_def onclose_def onerror_def onended_def onaudioprocess_def onLog_def
        Let_def split: option.splits session_promise.splits)
  show ?thesis
    using onmessage_cursor_advances [of message s raises now date] flush reset completes others
      disconnect_cursor [of raises s] connect_cursor [of env date s]
    by blast
qed

theorem cursor_changes_witness:
  "\<not> interrupted (audio_message 0.5)
   \<and> inlineData (audio_message 0.5) = Some (AudioBuffer 0.5) \<and> (0::real) \<le> 0.5
   \<and> nextStartTimeRef (onopen 2 (connect env_ready 1 initial_state))
       \<le> nextStartTimeRef (snd (onmessage stop_never_raises 10 3 (audio_message 0.5)
             (onopen 2 (connect env_ready 1 initial_state))))
   \<and> interrupted interruption_message \<and> inlineData interruption_message = None
   \<and> fst (onmessage stop_never_raises 11 6 interruption_message three_pending) = None
   \<and> nextStartTimeRef (snd (onmessage stop_never_raises 11 6 interruption_message three_pending)) = 0
   \<and> nextStartTimeRef (connect env_ready 7 three_pending) = 0
   \<and> nextStartTimeRef (connect env_no_key 7 three_pending) = 11.5
   \<and> nextStartTimeRef (connect env_no_output_context 7 three_pending) = 11.5
   \<and> nextStartTimeRef (snd (disconnect stop_never_raises three_pending)) = 11.5"
proof -
  have msg: "\<not> interrupted (audio_message 0.5)"
      "inlineData (audio_message 0.5) = Some (AudioBuffer 0.5)"
      "\<forall>d. inlineData (audio_message 0.5) = Some (AudioBuffer d) \<longrightarrow> 0 \<le> d"
      "interrupted interruption_message" "inlineData interruption_message = None"
    by (simp_all add: audio_message_def interruption_message_def)
  have advance: "nextStartTimeRef (onopen 2 (connect env_ready 1 initial_state))
       \<le> nextStartTimeRef (snd (onmessage stop_never_raises 10 3 (audio_message 0.5)
             (onopen 2 (connect env_ready 1 initial_state))))"
    using cursor_changes [where message = "audio_message 0.5"
        and s = "onopen 2 (connect env_ready 1 initial_state)"
        and raises = stop_never_raises and now = 10 and date = 3] msg
    by blast
  have complete: "fst (onmessage stop_never_raises 11 6 interruption_message three_pending) = None"
    using cursor_changes [where message = interruption_message and s = three_pending
        and raises = stop_never_raises and now = 11 and date = 6] msg
    by blast
  then have reset:
    "nextStartTimeRef (snd (onmessage stop_never_raises 11 6 interruption_message three_pending)) = 0"
    using cursor_changes [where message = interruption_message and s = three_pending
        and raises = stop_never_raises and now = 11 and date = 6] msg
    by blast
  have con: "nextStartTimeRef (connect env_ready 7 three_pending) = 0"
      "nextStartTimeRef (connect env_no_key 7 three_pending) = 11.5"
      "nextStartTimeRef (connect env_no_output_context 7 three_pending) = 11.5"
    using cursor_changes [where s = three_pending and date = 7 and env = env_ready]
      cursor_changes [where s = three_pending and date = 7 and env = env_no_key]
      cursor_changes [where s = three_pending and date = 7 and env = env_no_output_context]
    by (simp_all add: env_ready_def env_no_key_def env_no_output_context_def falsy_def
        three_pending_eval)
  have dis: "nextStartTimeRef (snd (disconnect stop_never_raises three_pending)) = 11.5"
    using cursor_changes [where s = three_pending and raises = stop_never_raises]
    by (simp add: three_pending_eval)
  show ?thesis
    using msg(1,2,4,5) advance complete reset con dis by simp
qed

text \<open>
  C5 as stated has the cursor at zero once \<^verbatim>\<open>disconnect\<close> has completed. With three
  sources scheduled the cursor stands at 11.5; \<^verbatim>\<open>disconnect\<close> completes, empties the
  pending set, and the cursor still stands at 11.5.
\<close>

theorem disconnect_leaves_cursor_counterexample:
  "fst (disconnect stop_never_raises three_pending) = None
   \<and> audioSourcesRef (snd (disconnect stop_never_raises three_pending)) = []
   \<and> nextStartTimeRef (snd (disconnect stop_never_raises three_pending)) = 11.5
   \<and> nextStartTimeRef (snd (disconnect stop_never_raises three_pending)) \<noteq> 0"
  by (simp add: disconnect_def three_pending_eval stop_def stop_never_raises_def Let_def)

section \<open>disconnect\<close>

text \<open>When no pending source raises on \<^verbatim>\<open>stop()\<close> and the session promise was not
  rejected, \<^verbatim>\<open>disconnect\<close> runs to its end: every pending source gets a \<^verbatim>\<open>stop()\<close>
  call, the pending set is empty, the connected state is false and the volume 0.\<close>

lemma disconnect_clean:
  assumes "pending_ok s" and "\<forall>a\<in>set (audioSourcesRef s). \<not> raises a"
    and "\<forall>reason. sessionPromiseRef s \<noteq> Some (Rejected reason)"
  shows "fst (disconnect raises s) = None"
    and "audioSourcesRef (snd (disconnect raises s)) = []"
    and "connected_cell (snd (disconnect raises s)) = False"
    and "volume (snd (disconnect raises s)) = Num 0"
    and "\<forall>a\<in>set (audioSourcesRef s).
           map_option stop_calls (nodes (snd (disconnect raises s)) a)
             = map_option (\<lambda>n. stop_calls n + 1) (nodes s a)"
  using assms
  by (auto simp add: disconnect_def Let_def forEach_stop_no_raise stop_calls_flushed
      count_list_distinct pending_ok_def list_all_iff
      split: option.splits session_promise.splits)

text \<open>
  C4, where the source departs from it. Three sources are pending, the session is
  connected and the volume is 1; \<^verbatim>\<open>stop()\<close> raises on the first source. Then
  \<^verbatim>\<open>disconnect\<close> ends with that error: the second and the third source get no
  \<^verbatim>\<open>stop()\<close> call, the pending set still holds the three sources, the connected state
  is still true and the volume still 1.
\<close>

theorem disconnect_stop_failure:
  "fst (disconnect stop_raises_on_first three_pending) = Some InvalidStateError
   \<and> audioSourcesRef (snd (disconnect stop_raises_on_first three_pending)) = [0, 1, 2]
   \<and> connected_cell (snd (disconnect stop_raises_on_first three_pending)) = True
   \<and> volume (snd (disconnect stop_raises_on_first three_pending)) = Num 1
   \<and> map_option stop_calls (nodes (snd (disconnect stop_raises_on_first three_pending)) 0) = Some 1
   \<and> map_option stop_calls (nodes (snd (disconnect stop_raises_on_first three_pending)) 1) = Some 0
   \<and> map_option stop_calls (nodes (snd (disconnect stop_raises_on_first three_pending)) 2) = Some 0"
  by (simp add: disconnect_def three_pending_eval stop_def stop_raises_on_first_def Let_def)

section \<open>connect while a session exists\<close>

text \<open>\<^verbatim>\<open>connect\<close> does not look at the session reference: whenever it gets as far as
  \<^verbatim>\<open>ai.live.connect\<close> and the handshake succeeds, it opens a new remote session and
  stores its handle in the one reference the hook has.\<close>

lemma connect_opens_session:
  assumes "\<not> falsy (API_KEY env)" and "GoogleGenAI_raises env = None"
    and "inputAudioContext_raises env = None" and "outputAudioContext_raises env = None"
    and "getUserMedia_rejects env = None" and "live_connect_rejects env = None"
  shows "remote_sessions (connect env date s) = remote_sessions s @ [next_session s]"
    and "sessionPromiseRef (connect env date s) = Some (Fulfilled (next_session s))"
    and "next_session (connect env date s) = next_session s + 1"
  using assms by (simp_all add: connect_def onLog_def Let_def)

text \<open>
  C1, where the source departs from it. The button of \<^verbatim>\<open>App\<close> calls \<^verbatim>\<open>connect\<close> while
  the connected state is false and \<^verbatim>\<open>disconnect\<close> once it is true, but the state becomes
  true only in \<^verbatim>\<open>onopen\<close>, and \<^verbatim>\<open>connect\<close> itself has no guard. Two clicks before
  the session has opened call \<^verbatim>\<open>connect\<close> twice: two remote sessions are open, and the
  hook refers to the second. Once they have opened, a click calls \<^verbatim>\<open>disconnect\<close>, which
  closes the session the hook refers to: the first session stays open, and no reference
  to it is left.
\<close>

theorem second_connect_orphans_session:
  "connected_cell (snd (onClick env_ready stop_never_raises 1 initial_state)) = False
   \<and> remote_sessions (snd (onClick env_ready stop_never_raises 1 initial_state)) = [0]
   \<and> sessionPromiseRef (snd (onClick env_ready stop_never_raises 1 initial_state))
       = Some (Fulfilled 0)
   \<and> remote_sessions (snd (onClick env_ready stop_never_raises 2
         (snd (onClick env_ready stop_never_raises 1 initial_state)))) = [0, 1]
   \<and> sessionPromiseRef (snd (onClick env_ready stop_never_raises 2
         (snd (onClick env_ready stop_never_raises 1 initial_state)))) = Some (Fulfilled 1)
   \<and> connected_cell (onopen 4 (onopen 3 (snd (onClick env_ready stop_never_raises 2
         (snd (onClick env_ready stop_never_raises 1 initial_state)))))) = True
   \<and> fst (onClick env_ready stop_never_raises 5 (onopen 4 (onopen 3
         (snd (onClick env_ready stop_never_raises 2
           (snd (onClick env_ready stop_never_raises 1 initial_state))))))) = None
   \<and> remote_sessions (snd (onClick env_ready stop_never_raises 5 (onopen 4 (onopen 3
         (snd (onClick env_ready stop_never_raises 2
           (snd (onClick env_ready stop_never_raises 1 initial_state)))))))) = [0]
   \<and> sessionPromiseRef (snd (onClick env_ready stop_never_raises 5 (onopen 4 (onopen 3
         (snd (onClick env_ready stop_never_raises 2
           (snd (onClick env_ready stop_never_raises 1 initial_state))))))))
       = Some (Fulfilled 1)"
  by (simp add: env_ready_def falsy_def connect_def onClick_def onopen_def disconnect_def
      onLog_def initial_state_def Let_def)

section \<open>The round trip of the PCM codec\<close>

lemma quantize_range: "- 32768 \<le> quantize rnd x \<and> quantize rnd x \<le> 32767"
  by (simp add: quantize_def)

lemma quantize_error:
  assumes rnd: "\<bar>real_of_int (rnd (x * 32768)) - x * 32768\<bar> \<le> 1" and "- 1 \<le> x" "x \<le> 1"
  shows "\<bar>real_of_int (quantize rnd x) / 32768 - x\<bar> \<le> 1 / 32768"
proof -
  let ?y = "x * 32768"
  have y: "- 32768 \<le> ?y" "?y \<le> 32768" using assms by simp_all
  have "\<bar>real_of_int (quantize rnd x) - ?y\<bar> \<le> 1"
  proof (cases "rnd ?y > 32767")
    case True
    then have q: "quantize rnd x = 32767" by (simp add: quantize_def)
    from True have "real_of_int (rnd ?y) \<ge> 32768" by linarith
    then have "?y \<ge> 32767" using rnd by linarith
    then show ?thesis using y q by simp
  next
    case False
    show ?thesis
    proof (cases "rnd ?y < - 32768")
      case True
      then have q: "quantize rnd x = - 32768" by (simp add: quantize_def)
      then show ?thesis using y rnd True by simp
    next
      case lo: False
      then have "quantize rnd x = rnd ?y" using False by (simp add: quantize_def)
      then show ?thesis using rnd by simp
    qed
  qed
  then have "\<bar>(real_of_int (quantize rnd x) - ?y) / 32768\<bar> \<le> 1 / 32768"
    by (simp add: abs_divide) 
  then show ?thesis by (simp add: diff_divide_distrib)
qed

lemma int16_of_le_bytes:
  assumes "- 32768 \<le> i" "i \<le> 32767"
  shows "le_int16s (le_bytes i @ rest) = i # le_int16s rest"
proof -
  have "i mod (256 * 256) = 256 * (i div 256 mod 256) + i mod 256"
    by (rule zmod_zmult2_eq) simp
  then have u: "int (nat (i mod 256)) + 256 * int (nat ((i div 256) mod 256)) = i mod 65536"
    by simp
  have wrap: "i mod 65536 = (if 0 \<le> i then i else i + 65536)"
  proof (cases "0 \<le> i")
    case True
    then show ?thesis using assms by simp
  next
    case False
    then have "(i + 65536) mod 65536 = i + 65536"
      using assms by (intro mod_pos_pos_trivial) simp_all
    moreover have "(i + 65536) mod 65536 = i mod 65536" by simp
    ultimately show ?thesis using False by simp
  qed
  have "int16_of (nat (i mod 256)) (nat ((i div 256) mod 256)) = i"
    unfolding int16_of_def Let_def u wrap using assms by simp
  then show ?thesis by (simp add: le_bytes_def)
qed

lemma index_of_nth: "distinct xs \<Longrightarrow> n < length xs \<Longrightarrow> index_of (xs ! n) xs = Some n"
proof (induction xs arbitrary: n)
  case Nil
  then show ?case by simp
next
  case (Cons x xs)
  show ?case
  proof (cases n)
    case 0
    then show ?thesis by simp
  next
    case (Suc m)
    then have "xs ! m \<noteq> x" using Cons.prems by auto
    then show ?thesis using Suc Cons by simp
  qed
qed

lemma alphabet_facts:
  "length alphabet = 64" "distinct alphabet" "CHR ''='' \<notin> set alphabet"
  by (simp_all add: alphabet_def)

lemma char_sextet_char: "n < 64 \<Longrightarrow> char_sextet (sextet_char n) = Some n"
  by (simp add: char_sextet_def sextet_char_def index_of_nth alphabet_facts)

lemma sextet_char_not_pad: "n < 64 \<Longrightarrow> sextet_char n \<noteq> CHR ''=''"
proof -
  assume "n < 64"
  then have "alphabet ! n \<in> set alphabet"
    by (simp add: alphabet_facts(1))
  then show ?thesis
    using alphabet_facts(3) by (auto simp add: sextet_char_def)
qed

lemma sextets_small:
  fixes a b c :: nat
  assumes "a < 256" "b < 256" "c < 256"
  shows "a div 4 < 64" "a mod 4 * 16 + b div 16 < 64" "b mod 16 * 4 + c div 64 < 64" "c mod 64 < 64"
    "a mod 4 * 16 < 64" "b mod 16 * 4 < 64"
  using assms by arith+

lemma first_byte:
  fixes a b :: nat
  assumes "b < 256"
  shows "a div 4 * 4 + (a mod 4 * 16 + b div 16) div 16 = a"
proof -
  have "b div 16 < 16" using assms by arith
  then have "(a mod 4 * 16 + b div 16) div 16 = a mod 4" by simp
  then show ?thesis by simp
qed

lemma second_byte:
  fixes a b c :: nat
  assumes "b < 256" "c < 256"
  shows "(a mod 4 * 16 + b div 16) mod 16 * 16 + (b mod 16 * 4 + c div 64) div 4 = b"
proof -
  have "b div 16 < 16" using assms by arith
  then have hi: "(a mod 4 * 16 + b div 16) mod 16 = b div 16" by simp
  have "c div 64 < 4" using assms by arith
  then have lo: "(b mod 16 * 4 + c div 64) div 4 = b mod 16" by simp
  show ?thesis unfolding hi lo by simp
qed

lemma third_byte:
  fixes b c :: nat
  assumes "c < 256"
  shows "(b mod 16 * 4 + c div 64) mod 4 * 64 + c mod 64 = c"
proof -
  have "c div 64 < 4" using assms by arith
  then have hi: "(b mod 16 * 4 + c div 64) mod 4 = c div 64" by simp
  show ?thesis unfolding hi by simp
qed

lemma first_byte_padded:
  fixes a :: nat
  shows "a div 4 * 4 + (a mod 4 * 16) div 16 = a"
  by simp

lemma second_byte_padded:
  fixes a b :: nat
  assumes "b < 256"
  shows "(a mod 4 * 16 + b div 16) mod 16 * 16 + (b mod 16 * 4) div 4 = b"
proof -
  have "b div 16 < 16" using assms by arith
  then have hi: "(a mod 4 * 16 + b div 16) mod 16 = b div 16" by simp
  show ?thesis unfolding hi by simp
qed

lemma unbase64_group:
  assumes "i < 64" "j < 64" "k < 64" "l < 64"
  shows "unbase64 (sextet_char i # sextet_char j # sextet_char k # sextet_char l # rest)
     = map_option
         (\<lambda>bytes. [i * 4 + j div 16, (j mod 16) * 16 + k div 4, (k mod 4) * 64 + l] @ bytes)
         (unbase64 rest)"
  using assms by (simp add: char_sextet_char sextet_char_not_pad cong: map_option_cong)

lemma unbase64_group_pad1:
  assumes "i < 64" "j < 64" "k < 64"
  shows "unbase64 [sextet_char i, sextet_char j, sextet_char k, CHR ''='']
     = Some [i * 4 + j div 16, (j mod 16) * 16 + k div 4]"
  using assms by (simp add: char_sextet_char sextet_char_not_pad)

lemma unbase64_group_pad2:
  assumes "i < 64" "j < 64"
  shows "unbase64 [sextet_char i, sextet_char j, CHR ''='', CHR ''=''] = Some [i * 4 + j div 16]"
  using assms by (simp add: char_sextet_char)

lemma unbase64_base64:
  "list_all (\<lambda>b. b < 256) bytes \<Longrightarrow> unbase64 (base64 bytes) = Some bytes"
proof (induction bytes rule: base64.induct)
  case (1 a b c rest)
  then have abc: "a < 256" "b < 256" "c < 256" and rest: "list_all (\<lambda>b. b < 256) rest"
    by simp_all
  have IH: "unbase64 (base64 rest) = Some rest" using rest by (rule "1.IH")
  note small = sextets_small [OF abc]
  have "unbase64 (base64 (a # b # c # rest))
      = map_option (\<lambda>bytes. [a div 4 * 4 + (a mod 4 * 16 + b div 16) div 16,
            (a mod 4 * 16 + b div 16) mod 16 * 16 + (b mod 16 * 4 + c div 64) div 4,
            (b mod 16 * 4 + c div 64) mod 4 * 64 + c mod 64] @ bytes) (unbase64 (base64 rest))"
    by (simp only: base64.simps append.simps unbase64_group [OF small(1) small(2) small(3) small(4)])
  also have "\<dots> = Some ([a, b, c] @ rest)"
    by (simp only: IH option.map first_byte [OF abc(2)] second_byte [OF abc(2,3)]
        third_byte [OF abc(3)])
  finally show ?case by simp
next
  case (2 a b)
  then have ab: "a < 256" "b < 256" by simp_all
  note small = sextets_small [OF ab ab(1)]
  have "unbase64 (base64 [a, b])
      = Some [a div 4 * 4 + (a mod 4 * 16 + b div 16) div 16,
            (a mod 4 * 16 + b div 16) mod 16 * 16 + (b mod 16 * 4) div 4]"
    by (simp only: base64.simps unbase64_group_pad1 [OF small(1) small(2) small(6)])
  then show ?case
    by (simp only: first_byte [OF ab(2)] second_byte_padded [OF ab(2)])
next
  case (3 a)
  then have a: "a < 256" by simp
  note small = sextets_small [OF a a a]
  have "unbase64 (base64 [a]) = Some [a div 4 * 4 + (a mod 4 * 16) div 16]"
    by (simp only: base64.simps unbase64_group_pad2 [OF small(1) small(5)])
  then show ?case
    by (simp only: first_byte_padded)
next
  case 4
  show ?case by simp
qed

lemma le_bytes_small: "list_all (\<lambda>b. b < 256) (le_bytes i)"
  by (simp add: le_bytes_def nat_less_iff)

lemma serialized:
  "list_all (\<lambda>b. b < 256) (concat (map (\<lambda>x. le_bytes (quantize rnd x)) samples))"
  "even (length (concat (map (\<lambda>x. le_bytes (quantize rnd x)) samples)))"
  "le_int16s (concat (map (\<lambda>x. le_bytes (quantize rnd x)) samples)) = map (quantize rnd) samples"
proof -
  show "list_all (\<lambda>b. b < 256) (concat (map (\<lambda>x. le_bytes (quantize rnd x)) samples))"
    by (induction samples) (simp_all add: le_bytes_small)
  show "even (length (concat (map (\<lambda>x. le_bytes (quantize rnd x)) samples)))"
    by (induction samples) (simp_all add: le_bytes_def)
  show "le_int16s (concat (map (\<lambda>x. le_bytes (quantize rnd x)) samples)) = map (quantize rnd) samples"
    by (induction samples) (simp_all add: int16_of_le_bytes quantize_range)
qed

lemma decode_encode:
  "decode (data (encode rnd rate samples))
     = Inr (map (\<lambda>x. real_of_int (quantize rnd x) / 32768) samples)"
  by (simp add: decode_def encode_def unbase64_base64 serialized o_def)

text \<open>
  C6, on the codec as the specification describes it. Whatever rounding to an integer the
  encoder uses, as long as it moves a value by no more than 1: for samples that all lie in
  [-1,1], decoding the blob that \<open>encode\<close> returns succeeds and yields as many samples,
  each within 1/32768 of the sample that was encoded. \<open>encode\<close> and \<open>decode\<close> are
  functions of their arguments alone: equal arguments give equal results, and there is no
  state they could change.
\<close>

theorem pcm_round_trip:
  assumes rnd: "\<forall>y. \<bar>real_of_int (rnd y) - y\<bar> \<le> 1"
    and range: "list_all (\<lambda>x. - 1 \<le> x \<and> x \<le> 1) samples"
  shows "\<exists>ys. decode (data (encode rnd rate samples)) = Inr ys
           \<and> length ys = length samples
           \<and> (\<forall>i<length samples. \<bar>ys ! i - samples ! i\<bar> \<le> 1 / 32768)"
proof -
  let ?ys = "map (\<lambda>x. real_of_int (quantize rnd x) / 32768) samples"
  have "\<bar>?ys ! i - samples ! i\<bar> \<le> 1 / 32768" if i: "i < length samples" for i
  proof -
    have "- 1 \<le> samples ! i \<and> samples ! i \<le> 1"
      using range i by (simp add: list_all_length)
    moreover have "\<bar>real_of_int (rnd (samples ! i * 32768)) - samples ! i * 32768\<bar> \<le> 1"
      using rnd by blast
    ultimately have "\<bar>real_of_int (quantize rnd (samples ! i)) / 32768 - samples ! i\<bar> \<le> 1 / 32768"
      by (intro quantize_error) simp_all
    then show ?thesis using i by simp
  qed
  then show ?thesis
    by (simp add: decode_encode)
qed

theorem pcm_round_trip_witness:
  "(\<forall>y. \<bar>real_of_int \<lfloor>y\<rfloor> - y\<bar> \<le> 1)
   \<and> list_all (\<lambda>x. - 1 \<le> x \<and> x \<le> 1) [0.5, - 1, 1 :: real]
   \<and> (\<exists>ys. decode (data (encode floor ''16000'' [0.5, - 1, 1])) = Inr ys
        \<and> length ys = length [0.5, - 1, 1 :: real]
        \<and> (\<forall>i<length [0.5, - 1, 1 :: real]. \<bar>ys ! i - [0.5, - 1, 1] ! i\<bar> \<le> 1 / 32768))"
proof -
  have rnd: "\<forall>y. \<bar>real_of_int \<lfloor>y\<rfloor> - y\<bar> \<le> 1"
  proof
    fix y :: real
    show "\<bar>real_of_int \<lfloor>y\<rfloor> - y\<bar> \<le> 1" by linarith
  qed
  have range: "list_all (\<lambda>x. - 1 \<le> x \<and> x \<le> 1) [0.5, - 1, 1 :: real]" by simp
  show ?thesis
    using rnd range pcm_round_trip [OF rnd range, of "''16000''"] by blast
qed

end
